theory Spec2Isabelle
  imports Complex_Main "HOL-Library.Char_ord" "HOL-Library.List_Lexorder"
begin

section \<open>Data model of the streamline curation tool\<close>

text \<open>
  The development follows \<^verbatim>\<open>bin/dipy_streamlines_viz.py\<close>: the class \<^verbatim>\<open>Bundle\<close>, the class
  \<^verbatim>\<open>StreamlinesVizu\<close> and the closures \<^verbatim>\<open>like_bundle\<close>, \<^verbatim>\<open>dislike_bundle\<close> and \<^verbatim>\<open>undo\<close>.
  VTK actors, panels and the render loop carry no state any statement below reads; of the
  renderer only the fact whether a bundle holds one (\<^verbatim>\<open>self.ren\<close>) is kept, because
  \<^verbatim>\<open>Bundle.update\<close> dereferences it.
\<close>

type_synonym point = "real \<times> real \<times> real"
type_synonym streamline = "point list"
type_synonym color = "real \<times> real \<times> real"

text \<open>A clustering threshold is a Python float: a finite number or \<^verbatim>\<open>np.inf\<close>.\<close>

datatype threshold = Thr real | np_inf

text \<open>The exceptions the modelled code can raise.\<close>

datatype error = NameError | AttributeError | KeyError | ValueError | IndexError | TypeError

text \<open>A cluster as the clustering engine returns it: the member indices and the centroid.\<close>

record cluster =
  indices :: "nat list"
  centroid :: "point list"

text \<open>
  The collaborators the script imports and this repository snapshot does not contain are
  parameters: the clustering engine (\<^verbatim>\<open>QuickBundles(metric, threshold).cluster\<close>), the colour
  generator \<^verbatim>\<open>distinguishable_colormap(bg, exclude)\<close> as the sequence of colours it yields,
  and the value the clustering panel's slider shows once \<^verbatim>\<open>select\<close> has set it up for a
  bundle (from the default threshold and the bundle's streamlines).
\<close>

record Env =
  qb_cluster :: "threshold \<Rightarrow> streamline list \<Rightarrow> cluster list"
  distinguishable_colormap :: "nat \<Rightarrow> color"
  slider_value :: "real option \<Rightarrow> streamline list \<Rightarrow> threshold"

text \<open>
  The fields of \<^verbatim>\<open>Bundle\<close>. \<^verbatim>\<open>clusters\<close> is optional because \<^verbatim>\<open>get_cluster_as_bundles\<close>
  tests it against \<^verbatim>\<open>None\<close>; \<^verbatim>\<open>ren\<close> tells whether a renderer is attached.
\<close>

record Bundle =
  streamlines :: "streamline list"
  color :: "color option"
  bundle_centroid :: "point list option"
  clusters :: "cluster list option"
  clusters_colors :: "color option list"
  threshold_used :: "threshold option"
  last_threshold :: "threshold option"
  ren :: bool
  has_changed :: bool
  centroids_visible :: bool
  streamlines_visible :: bool

section \<open>Bundle\<close>

text \<open>
  \<^verbatim>\<open>Bundle._cluster\<close>: one generated colour per cluster (the \<^verbatim>\<open>zip\<close> with the generator), and
  for exactly one cluster the bundle's own colour, or blue when it has none.
\<close>

definition Bundle_cluster :: "Env \<Rightarrow> threshold \<Rightarrow> Bundle \<Rightarrow> Bundle" where
  "Bundle_cluster E t b =
     (let cs = qb_cluster E t (streamlines b);
          generated = map (\<lambda>i. Some (distinguishable_colormap E i)) [0..<length cs]
      in b\<lparr>clusters := Some cs,
            clusters_colors :=
              (if length cs = 1
               then (case color b of Some c \<Rightarrow> [Some c] | None \<Rightarrow> [Some (0, 0, 1)])
               else generated),
            last_threshold := Some t,
            has_changed := True\<rparr>)"

text \<open>
  \<^verbatim>\<open>Bundle.__init__\<close> begins by storing its arguments and the initial values of the other
  attributes: \<open>Bundle_fields\<close> is the object at that point, before any clustering, with the
  empty list the code puts into \<^verbatim>\<open>clusters\<close>.
\<close>

definition Bundle_fields ::
  "streamline list \<Rightarrow> point list option \<Rightarrow> threshold option \<Rightarrow> color option \<Rightarrow> Bundle" where
  "Bundle_fields sl cen thr col =
     \<lparr>streamlines = sl, color = col, bundle_centroid = cen, clusters = Some [],
      clusters_colors = [None], threshold_used = thr, last_threshold = None,
      ren = False, has_changed = True, centroids_visible = False,
      streamlines_visible = True\<rparr>"

text \<open>
  The constructor then colours the streamlines with \<^verbatim>\<open>line_colors\<close> and clusters at infinity;
  \<open>constructed\<close> is the object it returns when it returns. \<^verbatim>\<open>line_colors\<close> (of
  \<^verbatim>\<open>dipy.viz.colormap\<close>, which is not part of the sources at hand) raises \<^verbatim>\<open>ValueError\<close> for a
  collection without streamlines, so no bundle is built from one; the script itself tests
  \<^verbatim>\<open>len(streamlines) == 0\<close> before it builds the root bundle anew.
\<close>

definition constructed ::
  "Env \<Rightarrow> streamline list \<Rightarrow> point list option \<Rightarrow> threshold option \<Rightarrow> color option \<Rightarrow> Bundle" where
  "constructed E sl cen thr col = Bundle_cluster E np_inf (Bundle_fields sl cen thr col)"

definition Bundle_init ::
  "Env \<Rightarrow> streamline list \<Rightarrow> point list option \<Rightarrow> threshold option \<Rightarrow> color option \<Rightarrow>
   error + Bundle" where
  "Bundle_init E sl cen thr col =
     (if sl = [] then Inl ValueError else Inr (constructed E sl cen thr col))"

definition add_to_renderer :: "Bundle \<Rightarrow> Bundle" where
  "add_to_renderer b = b\<lparr>ren := True\<rparr>"

text \<open>
  \<^verbatim>\<open>Bundle.update\<close>: nothing to do when the bundle is clean; otherwise the centroid actors
  are rebuilt through \<^verbatim>\<open>self.ren\<close>, which raises when no renderer is attached.
\<close>

definition update :: "Bundle \<Rightarrow> error + Bundle" where
  "update b =
     (if \<not> has_changed b then Inr b
      else if \<not> ren b then Inl AttributeError
      else Inr (b\<lparr>has_changed := False\<rparr>))"

definition show_centroids :: "Bundle \<Rightarrow> error + Bundle" where
  "show_centroids b =
     (case update b of Inl e \<Rightarrow> Inl e | Inr b' \<Rightarrow> Inr (b'\<lparr>centroids_visible := True\<rparr>))"

definition hide_centroids :: "Bundle \<Rightarrow> Bundle" where
  "hide_centroids b = b\<lparr>centroids_visible := False\<rparr>"

definition show_streamlines :: "Bundle \<Rightarrow> Bundle" where
  "show_streamlines b = b\<lparr>streamlines_visible := True\<rparr>"

definition hide_streamlines :: "Bundle \<Rightarrow> Bundle" where
  "hide_streamlines b = b\<lparr>streamlines_visible := False\<rparr>"

text \<open>\<^verbatim>\<open>Bundle.preview\<close> returns the bundle as it leaves it and the number of clusters.\<close>

definition preview :: "Env \<Rightarrow> threshold \<Rightarrow> Bundle \<Rightarrow> error + Bundle \<times> nat" where
  "preview E t b =
     (case update (Bundle_cluster E t b) of
        Inl e \<Rightarrow> Inl e
      | Inr b' \<Rightarrow> (case clusters b' of None \<Rightarrow> Inl TypeError | Some cs \<Rightarrow> Inr (b', length cs)))"

definition reset :: "Env \<Rightarrow> Bundle \<Rightarrow> error + Bundle" where
  "reset E b = update (Bundle_cluster E np_inf b)"

text \<open>
  \<^verbatim>\<open>self.streamlines[cluster.indices]\<close> raises on an index outside the collection; the child
  is then built by the constructor, which raises for a cluster without members.
\<close>

definition child_bundle :: "Env \<Rightarrow> Bundle \<Rightarrow> cluster \<Rightarrow> color option \<Rightarrow> error + Bundle" where
  "child_bundle E b c col =
     (if list_all (\<lambda>i. i < length (streamlines b)) (indices c)
      then Bundle_init E (map (\<lambda>i. streamlines b ! i) (indices c)) (Some (centroid c))
             (last_threshold b) col
      else Inl IndexError)"

text \<open>A loop that appends one result per iteration and stops at the first exception.\<close>

fun collect :: "(error + 'a) list \<Rightarrow> error + 'a list" where
  "collect [] = Inr []"
| "collect (Inl e # rs) = Inl e"
| "collect (Inr x # rs) = (case collect rs of Inl e \<Rightarrow> Inl e | Inr xs \<Rightarrow> Inr (x # xs))"

definition get_cluster_as_bundles :: "Env \<Rightarrow> Bundle \<Rightarrow> error + Bundle list" where
  "get_cluster_as_bundles E b =
     (case clusters b of
        None \<Rightarrow> Inl NameError
      | Some cs \<Rightarrow>
          if length cs = 1
          then (case child_bundle E b (cs ! 0) (color b) of
                  Inl e \<Rightarrow> Inl e | Inr c \<Rightarrow> Inr [c])
          else collect (map (\<lambda>(c, col). child_bundle E b c col) (zip cs (clusters_colors b))))"

section \<open>Clustering engine\<close>

text \<open>
  Modelled from the spec: \<^verbatim>\<open>dipy.segment.clustering.QuickBundles\<close> and
  \<^verbatim>\<open>dipy.segment.metric\<close> are not part of the sources at hand. Section 4.1 of the
  specification describes a single pass in input order: every streamline is turned into
  its feature, compared with the centroids of the clusters so far, joins the nearest
  cluster when that distance is at most the threshold (the centroid is then updated
  incrementally), and founds a new cluster otherwise. Clusters are listed in creation order.
\<close>

record Metric =
  feature :: "streamline \<Rightarrow> point list"
  dist :: "point list \<Rightarrow> point list \<Rightarrow> real"

definition close_enough :: "real \<Rightarrow> threshold \<Rightarrow> bool" where
  "close_enough d t = (case t of np_inf \<Rightarrow> True | Thr r \<Rightarrow> d \<le> r)"

text \<open>Index and distance of the nearest centroid, the first one among equals.\<close>

fun nearest ::
  "(point list \<Rightarrow> point list \<Rightarrow> real) \<Rightarrow> point list \<Rightarrow> cluster list \<Rightarrow> nat \<Rightarrow>
   (nat \<times> real) option \<Rightarrow> (nat \<times> real) option" where
  "nearest d f [] k best = best"
| "nearest d f (c # cs) k best =
     nearest d f cs (Suc k)
       (case best of
          None \<Rightarrow> Some (k, d f (centroid c))
        | Some (j, y) \<Rightarrow> if d f (centroid c) < y then Some (k, d f (centroid c)) else Some (j, y))"

definition scale_point :: "real \<Rightarrow> point \<Rightarrow> point" where
  "scale_point a p = (case p of (x, y, z) \<Rightarrow> (a * x, a * y, a * z))"

definition add_point :: "point \<Rightarrow> point \<Rightarrow> point" where
  "add_point p q = (case p of (x, y, z) \<Rightarrow> case q of (x', y', z') \<Rightarrow> (x + x', y + y', z + z'))"

text \<open>The centroid of \<open>n\<close> members after one more feature joins: the running mean.\<close>

definition update_centroid :: "point list \<Rightarrow> nat \<Rightarrow> point list \<Rightarrow> point list" where
  "update_centroid c n f =
     map (\<lambda>(p, q). scale_point (1 / real (Suc n)) (add_point (scale_point (real n) p) q)) (zip c f)"

definition join_cluster :: "cluster \<Rightarrow> nat \<Rightarrow> point list \<Rightarrow> cluster" where
  "join_cluster c i f =
     \<lparr>indices = indices c @ [i], centroid = update_centroid (centroid c) (length (indices c)) f\<rparr>"

definition assignment_step :: "Metric \<Rightarrow> threshold \<Rightarrow> cluster list \<Rightarrow> nat \<times> streamline \<Rightarrow> cluster list" where
  "assignment_step m t cs ix =
     (let i = fst ix; f = feature m (snd ix)
      in case nearest (dist m) f cs 0 None of
           None \<Rightarrow> cs @ [\<lparr>indices = [i], centroid = f\<rparr>]
         | Some (k, d) \<Rightarrow>
             if close_enough d t then cs[k := join_cluster (cs ! k) i f]
             else cs @ [\<lparr>indices = [i], centroid = f\<rparr>])"

definition QuickBundles_cluster :: "Metric \<Rightarrow> threshold \<Rightarrow> streamline list \<Rightarrow> cluster list" where
  "QuickBundles_cluster m t xs = foldl (assignment_step m t) [] (enumerate 0 xs)"

text \<open>
  Modelled from the spec: the module constant \<^verbatim>\<open>metric = MDF(ResampleFeature(nb_points=30))\<close>
  names classes of \<^verbatim>\<open>dipy.segment.metric\<close>, which is not part of the sources at hand. The
  specification gives the feature as resampling every streamline to a fixed number of
  points (30) and the distance as the average of the pointwise Euclidean distances.
  Resampling places the points at equal steps of arc length along the polyline.
\<close>

definition dist3 :: "point \<Rightarrow> point \<Rightarrow> real" where
  "dist3 p q =
     (case p of (x, y, z) \<Rightarrow> case q of (x', y', z') \<Rightarrow>
        sqrt ((x - x') * (x - x') + (y - y') * (y - y') + (z - z') * (z - z')))"

fun arc_length :: "streamline \<Rightarrow> real" where
  "arc_length (p # q # ps) = dist3 p q + arc_length (q # ps)"
| "arc_length ps = 0"

fun point_at :: "streamline \<Rightarrow> real \<Rightarrow> point" where
  "point_at [] a = (0, 0, 0)"
| "point_at [p] a = p"
| "point_at (p # q # ps) a =
     (if a \<le> dist3 p q
      then add_point (scale_point (1 - a / dist3 p q) p) (scale_point (a / dist3 p q) q)
      else point_at (q # ps) (a - dist3 p q))"

definition resample :: "nat \<Rightarrow> streamline \<Rightarrow> point list" where
  "resample n s = map (\<lambda>i. point_at s (arc_length s * real i / real (n - 1))) [0..<n]"

definition average_pointwise_euclidean :: "point list \<Rightarrow> point list \<Rightarrow> real" where
  "average_pointwise_euclidean f g =
     sum_list (map (\<lambda>(p, q). dist3 p q) (zip f g)) / real (length f)"

definition metric :: Metric where
  "metric = \<lparr>feature = resample 30, dist = average_pointwise_euclidean\<rparr>"

section \<open>Curation session\<close>

text \<open>
  Python's \<^verbatim>\<open>Bundle\<close> objects are shared by reference between the registry and the undo
  memory, and \<^verbatim>\<open>select\<close> mutates them in place. The session therefore keeps a store of
  objects (\<open>heap\<close>); the registry and the undo records hold addresses.
\<close>

record undo_entry =
  action :: string
  bundle_name :: string
  bundle_ref :: nat

text \<open>
  The fields of \<^verbatim>\<open>StreamlinesVizu\<close> the curation workflow reads. \<open>undo_maxlen\<close> is the
  \<^verbatim>\<open>maxlen\<close> of the deque (\<^verbatim>\<open>None\<close>: unbounded); the newest record is the last element.
  \<open>scene\<close> tells whether \<^verbatim>\<open>initialize_scene\<close> has run, that is whether \<^verbatim>\<open>self.ren\<close>,
  \<^verbatim>\<open>self.iren\<close> and the panels exist.
\<close>

record StreamlinesVizu =
  heap :: "nat \<Rightarrow> Bundle"
  bundles :: "string \<rightharpoonup> nat"
  keys :: "string list"
  selected_bundle :: "string option"
  inliers :: "streamline list"
  outliers :: "streamline list"
  undo_memory :: "undo_entry list"
  undo_maxlen :: "nat option"
  default_clustering_threshold :: "real option"
  last_bundles_visibility_state :: string
  scene :: bool

text \<open>Sequencing of two steps, the second skipped when the first raises.\<close>

definition and_then :: "error + 'a \<Rightarrow> ('a \<Rightarrow> error + 'b) \<Rightarrow> error + 'b" where
  "and_then r f = (case r of Inl e \<Rightarrow> Inl e | Inr x \<Rightarrow> f x)"

text \<open>
  \<^verbatim>\<open>collections.deque(maxlen=n)\<close> raises \<^verbatim>\<open>ValueError\<close> for a negative \<open>n\<close>. \<^verbatim>\<open>append\<close> on a
  bounded deque adds on the right and drops the leftmost element when the bound is exceeded.
\<close>

definition deque_append :: "nat option \<Rightarrow> 'a list \<Rightarrow> 'a \<Rightarrow> 'a list" where
  "deque_append maxlen d x =
     (case maxlen of
        None \<Rightarrow> d @ [x]
      | Some m \<Rightarrow> if m < length (d @ [x]) then tl (d @ [x]) else d @ [x])"

text \<open>
  \<^verbatim>\<open>StreamlinesVizu.__init__\<close>: the deque is created first, then the root bundle is built and
  stored at address 0 under the key \<^verbatim>\<open>"/"\<close>. No other address is referenced yet; the store
  holds the same value there.
\<close>

definition StreamlinesVizu_init ::
  "Env \<Rightarrow> streamline list \<Rightarrow> real option \<Rightarrow> int option \<Rightarrow> error + StreamlinesVizu" where
  "StreamlinesVizu_init E tractogram dct undo_memory_size =
     (if (case undo_memory_size of None \<Rightarrow> False | Some n \<Rightarrow> n < 0) then Inl ValueError
      else and_then (Bundle_init E tractogram None (Some np_inf) None) (\<lambda>root.
             Inr \<lparr>heap = (\<lambda>r. root),
                  bundles = [''/'' \<mapsto> 0],
                  keys = [''/''],
                  selected_bundle = None,
                  inliers = [],
                  outliers = [],
                  undo_memory = [],
                  undo_maxlen = map_option nat undo_memory_size,
                  default_clustering_threshold = dct,
                  last_bundles_visibility_state = ''dimmed'',
                  scene = False\<rparr>))"

text \<open>
  \<^verbatim>\<open>initialize_scene\<close> creates the renderer and the panels and adds the root bundle to the
  renderer. \<^verbatim>\<open>Renderer.add\<close> hands an object that is not a VTK prop its renderer through
  \<^verbatim>\<open>add_to_renderer\<close>.
\<close>

definition initialize_scene :: "StreamlinesVizu \<Rightarrow> error + StreamlinesVizu" where
  "initialize_scene s =
     (case bundles s ''/'' of
        None \<Rightarrow> Inl KeyError
      | Some r \<Rightarrow> Inr (s\<lparr>heap := (heap s)(r := add_to_renderer (heap s r)), scene := True\<rparr>))"

definition add_bundle :: "string \<Rightarrow> nat \<Rightarrow> StreamlinesVizu \<Rightarrow> error + StreamlinesVizu" where
  "add_bundle name r s =
     (if \<not> scene s then Inl AttributeError
      else Inr (s\<lparr>keys := sort (keys s @ [name]),
                  heap := (heap s)(r := add_to_renderer (heap s r)),
                  bundles := (bundles s)(name \<mapsto> r)\<rparr>))"

definition remove_bundle :: "string \<Rightarrow> StreamlinesVizu \<Rightarrow> error + StreamlinesVizu" where
  "remove_bundle name s =
     (if name \<notin> set (keys s) then Inl ValueError
      else if \<not> scene s then Inl AttributeError
      else case bundles s name of
             None \<Rightarrow> Inl KeyError
           | Some r \<Rightarrow> Inr (s\<lparr>keys := sort (remove1 name (keys s)),
                              bundles := (bundles s)(name := None)\<rparr>))"

text \<open>
  \<^verbatim>\<open>_set_bundles_visibility\<close> branches on the state first: an unknown state raises
  \<^verbatim>\<open>ValueError\<close>, and each known state begins by colouring \<^verbatim>\<open>self.show_dim_hide_button\<close>, which
  exists once the scene is initialised. Of the other effects only the remembered background
  state is kept; the rest is actor visibility and opacity.
\<close>

definition set_bundles_visibility :: "string \<Rightarrow> StreamlinesVizu \<Rightarrow> error + StreamlinesVizu" where
  "set_bundles_visibility state s =
     (if state = ''visible''
      then (if scene s then Inr s else Inl AttributeError)
      else if state = ''dimmed''
      then (if scene s then Inr (s\<lparr>last_bundles_visibility_state := ''dimmed''\<rparr>)
            else Inl AttributeError)
      else if state = ''hidden''
      then (if scene s then Inr (s\<lparr>last_bundles_visibility_state := ''hidden''\<rparr>)
            else Inl AttributeError)
      else Inl ValueError)"

text \<open>The first part of \<^verbatim>\<open>select\<close>: reset the bundle selected so far, if it is registered.\<close>

definition unselect :: "Env \<Rightarrow> StreamlinesVizu \<Rightarrow> error + StreamlinesVizu" where
  "unselect E s =
     (case selected_bundle s of
        None \<Rightarrow> Inr s
      | Some k \<Rightarrow>
          (case bundles s k of
             None \<Rightarrow> Inr s
           | Some r \<Rightarrow> and_then (reset E (heap s r)) (\<lambda>b. Inr (s\<lparr>heap := (heap s)(r := b)\<rparr>))))"

definition select :: "Env \<Rightarrow> string option \<Rightarrow> StreamlinesVizu \<Rightarrow> error + StreamlinesVizu" where
  "select E target s =
     and_then (unselect E s) (\<lambda>s1.
       case target of
         None \<Rightarrow>
           and_then (set_bundles_visibility ''visible'' (s1\<lparr>selected_bundle := None\<rparr>)) Inr
       | Some name \<Rightarrow>
           (case bundles s1 name of
              None \<Rightarrow> Inl KeyError
            | Some r \<Rightarrow>
                and_then (set_bundles_visibility ''visible'' (s1\<lparr>selected_bundle := Some name\<rparr>)) (\<lambda>s2.
                and_then (set_bundles_visibility (last_bundles_visibility_state s2) s2) (\<lambda>s3.
                and_then (preview E (slider_value E (default_clustering_threshold s3)
                                       (streamlines (heap s3 r))) (heap s3 r)) (\<lambda>bn.
                Inr (s3\<lparr>heap := (heap s3)(r := fst bn)\<rparr>))))))"

text \<open>
  \<^verbatim>\<open>np.lexsort((keys, sizes))\<close>: the indices sorted by size, and by key among equal sizes; a
  stable sort by the last sequence after a stable sort by the first.
\<close>

definition lexsort :: "string list \<Rightarrow> nat list \<Rightarrow> nat list" where
  "lexsort ks sizes = sort_key (\<lambda>i. sizes ! i) (sort_key (\<lambda>i. ks ! i) [0..<length ks])"

text \<open>\<^verbatim>\<open>list.index\<close>: the first position of a value, \<^verbatim>\<open>None\<close> where Python raises.\<close>

fun index_of :: "'a \<Rightarrow> 'a list \<Rightarrow> nat option" where
  "index_of x [] = None"
| "index_of x (y # ys) = (if x = y then Some 0 else map_option Suc (index_of x ys))"

definition bundle_sizes :: "StreamlinesVizu \<Rightarrow> error + nat list" where
  "bundle_sizes s =
     collect (map (\<lambda>k. case bundles s k of
                          None \<Rightarrow> Inl KeyError
                        | Some r \<Rightarrow> Inr (length (streamlines (heap s r)))) (keys s))"

text \<open>
  \<^verbatim>\<open>select_next\<close> and \<^verbatim>\<open>select_previous\<close> differ in the step only; \<open>step\<close> maps the current
  position and the number of keys to the next position.
\<close>

definition select_step ::
  "(nat \<Rightarrow> nat \<Rightarrow> nat) \<Rightarrow> Env \<Rightarrow> StreamlinesVizu \<Rightarrow> error + StreamlinesVizu" where
  "select_step step E s =
     and_then (bundle_sizes s) (\<lambda>sizes.
       and_then
         (case selected_bundle s of
            None \<Rightarrow> Inr 0
          | Some k \<Rightarrow>
              (case index_of k (keys s) of
                 None \<Rightarrow> Inl ValueError
               | Some j \<Rightarrow>
                   (case index_of j (rev (lexsort (keys s) sizes)) of
                      None \<Rightarrow> Inl ValueError
                    | Some cpt \<Rightarrow> Inr (step cpt (length (keys s))))))
         (\<lambda>cpt.
            if cpt < length (rev (lexsort (keys s) sizes))
            then select E (Some (keys s ! (rev (lexsort (keys s) sizes) ! cpt))) s
            else Inl IndexError))"

definition select_next :: "Env \<Rightarrow> StreamlinesVizu \<Rightarrow> error + StreamlinesVizu" where
  "select_next = select_step (\<lambda>cpt n. (cpt + 1) mod n)"

definition select_previous :: "Env \<Rightarrow> StreamlinesVizu \<Rightarrow> error + StreamlinesVizu" where
  "select_previous = select_step (\<lambda>cpt n. (cpt + n - 1) mod n)"

text \<open>
  \<^verbatim>\<open>like_bundle\<close> and \<^verbatim>\<open>dislike_bundle\<close>: memorise the action, extend the inliers or the
  outliers, move the selection on, remove the bundle.
\<close>

definition like_bundle :: "Env \<Rightarrow> StreamlinesVizu \<Rightarrow> error + StreamlinesVizu" where
  "like_bundle E s =
     (case selected_bundle s of
        None \<Rightarrow> Inl KeyError
      | Some name \<Rightarrow>
          (case bundles s name of
             None \<Rightarrow> Inl KeyError
           | Some r \<Rightarrow>
               and_then
                 (select_next E
                    (s\<lparr>undo_memory := deque_append (undo_maxlen s) (undo_memory s)
                                         \<lparr>action = ''like'', bundle_name = name, bundle_ref = r\<rparr>,
                       inliers := inliers s @ streamlines (heap s r)\<rparr>))
                 (remove_bundle name)))"

definition dislike_bundle :: "Env \<Rightarrow> StreamlinesVizu \<Rightarrow> error + StreamlinesVizu" where
  "dislike_bundle E s =
     (case selected_bundle s of
        None \<Rightarrow> Inl KeyError
      | Some name \<Rightarrow>
          (case bundles s name of
             None \<Rightarrow> Inl KeyError
           | Some r \<Rightarrow>
               and_then
                 (select_next E
                    (s\<lparr>undo_memory := deque_append (undo_maxlen s) (undo_memory s)
                                         \<lparr>action = ''dislike'', bundle_name = name, bundle_ref = r\<rparr>,
                       outliers := outliers s @ streamlines (heap s r)\<rparr>))
                 (remove_bundle name)))"

text \<open>
  The slice \<^verbatim>\<open>xs[:-n]\<close>: all but the last \<open>n\<close> elements for a positive \<open>n\<close>, and the empty
  slice \<^verbatim>\<open>xs[:0]\<close> for \<open>n = 0\<close>.
\<close>

definition slice_to_minus :: "nat \<Rightarrow> 'a list \<Rightarrow> 'a list" where
  "slice_to_minus n xs = (if n = 0 then [] else take (length xs - n) xs)"

text \<open>
  \<^verbatim>\<open>undo\<close>: with an empty memory the \<^verbatim>\<open>IndexError\<close> of \<^verbatim>\<open>pop\<close> is caught and the call returns;
  a record of unknown action is dropped with a warning.
\<close>

definition undo :: "Env \<Rightarrow> StreamlinesVizu \<Rightarrow> error + StreamlinesVizu" where
  "undo E s =
     (if undo_memory s = [] then Inr s
      else
        (let memory = last (undo_memory s);
             s1 = s\<lparr>undo_memory := butlast (undo_memory s)\<rparr>;
             n = length (streamlines (heap s (bundle_ref memory)))
         in if action memory = ''like''
            then and_then
                   (add_bundle (bundle_name memory) (bundle_ref memory)
                      (s1\<lparr>inliers := slice_to_minus n (inliers s1)\<rparr>))
                   (select E (Some (bundle_name memory)))
            else if action memory = ''dislike''
            then and_then
                   (add_bundle (bundle_name memory) (bundle_ref memory)
                      (s1\<lparr>outliers := slice_to_minus n (outliers s1)\<rparr>))
                   (select E (Some (bundle_name memory)))
            else Inr s1))"

text \<open>A sequence of accept and reject actions, stopped by the first exception.\<close>

datatype curation = Accept | Reject

fun curate :: "Env \<Rightarrow> curation \<Rightarrow> StreamlinesVizu \<Rightarrow> error + StreamlinesVizu" where
  "curate E Accept s = like_bundle E s"
| "curate E Reject s = dislike_bundle E s"


text \<open>The same step repeated, stopped by the first exception.\<close>

fun repeated :: "nat \<Rightarrow> ('a \<Rightarrow> error + 'a) \<Rightarrow> 'a \<Rightarrow> error + 'a" where
  "repeated 0 f s = Inr s"
| "repeated (Suc n) f s = and_then (f s) (repeated n f)"

section \<open>Concrete inputs\<close>

text \<open>
  A straight streamline of two points at height \<open>y\<close>, an instance of the collaborators
  (the clustering engine of the section above, colours numbered by position, a slider that
  shows the default threshold, or 5 without one).
\<close>

definition line_y :: "real \<Rightarrow> streamline" where
  "line_y y = [(0, y, 0), (1, y, 0)]"

text \<open>
  The thirty points at height \<open>y\<close> that resampling \<open>line_y y\<close> yields, and the collection of
  four straight streamlines used to compare two thresholds.
\<close>

definition level :: "real \<Rightarrow> point list" where
  "level y = map (\<lambda>i. (real i / 29, y, 0)) [0..<30]"

definition four_lines :: "streamline list" where
  "four_lines = [line_y 0, line_y 10, line_y (- 8), line_y 18]"

text \<open>The order of thresholds: finite ones by value, all of them below infinity.\<close>

definition thr_less :: "threshold \<Rightarrow> threshold \<Rightarrow> bool" where
  "thr_less t1 t2 =
     (case t1 of
        np_inf \<Rightarrow> False
      | Thr a \<Rightarrow> (case t2 of np_inf \<Rightarrow> True | Thr b \<Rightarrow> a < b))"

definition example_env :: Env where
  "example_env =
     \<lparr>qb_cluster = QuickBundles_cluster metric,
      distinguishable_colormap = (\<lambda>i. (1, real i, 0)),
      slider_value = (\<lambda>d sl. case d of None \<Rightarrow> Thr 5 | Some x \<Rightarrow> Thr x)\<rparr>"

text \<open>
  The bundle of one streamline and the bundle of the four streamlines as the constructor
  returns them, each added to a renderer.
\<close>

definition attached_bundle :: Bundle where
  "attached_bundle = add_to_renderer (constructed example_env [line_y 0] None (Some np_inf) None)"

definition four_bundle :: Bundle where
  "four_bundle = add_to_renderer (constructed example_env four_lines None (Some np_inf) None)"

text \<open>
  A session after a split into three bundles of one, two and one streamlines, the second
  one selected, with an empty undo memory of the given bound.
\<close>

definition example_session :: "nat option \<Rightarrow> StreamlinesVizu" where
  "example_session maxlen =
     \<lparr>heap = (\<lambda>r. add_to_renderer
                     (constructed example_env
                        (if r = 1 then [line_y 1, line_y 2] else [line_y (real r)])
                        None (Some np_inf) None)),
      bundles = [''/0/'' \<mapsto> 0, ''/1/'' \<mapsto> 1, ''/2/'' \<mapsto> 2],
      keys = [''/0/'', ''/1/'', ''/2/''],
      selected_bundle = Some ''/1/'',
      inliers = [line_y 7],
      outliers = [],
      undo_memory = [],
      undo_maxlen = maxlen,
      default_clustering_threshold = None,
      last_bundles_visibility_state = ''dimmed'',
      scene = True\<rparr>"

text \<open>A bundle with two clusters as \<^verbatim>\<open>_cluster\<close> leaves it, with an explicit colour.\<close>

definition two_cluster_bundle :: Bundle where
  "two_cluster_bundle =
     \<lparr>streamlines = [line_y 0, line_y 10], color = Some (1, 0, 0), bundle_centroid = None,
      clusters = Some [\<lparr>indices = [0], centroid = line_y 0\<rparr>,
                       \<lparr>indices = [1], centroid = line_y 10\<rparr>],
      clusters_colors = [Some (distinguishable_colormap example_env 0),
                         Some (distinguishable_colormap example_env 1)],
      threshold_used = Some np_inf, last_threshold = Some (Thr 3),
      ren = True, has_changed = False, centroids_visible = False,
      streamlines_visible = True\<rparr>"

definition one_cluster_bundle :: Bundle where
  "one_cluster_bundle =
     \<lparr>streamlines = [line_y 0, line_y 10], color = Some (1, 0, 0), bundle_centroid = None,
      clusters = Some [\<lparr>indices = [0, 1], centroid = line_y 5\<rparr>],
      clusters_colors = [Some (1, 0, 0)],
      threshold_used = Some np_inf, last_threshold = Some np_inf,
      ren = True, has_changed = False, centroids_visible = False,
      streamlines_visible = True\<rparr>"

text \<open>
  The colours \<^verbatim>\<open>_cluster\<close> stores next to the clusters: the bundle's own colour (or blue) for
  a single cluster, the generated colours otherwise.
\<close>

definition colors_assigned :: "Env \<Rightarrow> Bundle \<Rightarrow> bool" where
  "colors_assigned E b =
     (case clusters b of
        None \<Rightarrow> False
      | Some cs \<Rightarrow>
          clusters_colors b =
            (if length cs = 1
             then (case color b of Some c \<Rightarrow> [Some c] | None \<Rightarrow> [Some (0, 0, 1)])
             else map (\<lambda>i. Some (distinguishable_colormap E i)) [0..<length cs]))"

text \<open>
  Every cluster has a member, and every member index points into the bundle's streamlines.
\<close>

definition indices_valid :: "Bundle \<Rightarrow> cluster list \<Rightarrow> bool" where
  "indices_valid b cs =
     list_all (\<lambda>c. indices c \<noteq> [] \<and> list_all (\<lambda>i. i < length (streamlines b)) (indices c)) cs"

text \<open>
  The bundles a program can hold: those the constructor returns, and what the operations
  of \<^verbatim>\<open>Bundle\<close> make of them.
\<close>

inductive built :: "Env \<Rightarrow> Bundle \<Rightarrow> bool" for E :: Env where
  by_init: "Bundle_init E sl cen thr col = Inr b \<Longrightarrow> built E b"
| by_add_to_renderer: "built E b \<Longrightarrow> built E (add_to_renderer b)"
| by_update: "built E b \<Longrightarrow> update b = Inr b' \<Longrightarrow> built E b'"
| by_show_centroids: "built E b \<Longrightarrow> show_centroids b = Inr b' \<Longrightarrow> built E b'"
| by_hide_centroids: "built E b \<Longrightarrow> built E (hide_centroids b)"
| by_show_streamlines: "built E b \<Longrightarrow> built E (show_streamlines b)"
| by_hide_streamlines: "built E b \<Longrightarrow> built E (hide_streamlines b)"
| by_preview: "built E b \<Longrightarrow> preview E t b = Inr (b', n) \<Longrightarrow> built E b'"
| by_reset: "built E b \<Longrightarrow> reset E b = Inr b' \<Longrightarrow> built E b'"

text \<open>Exactly one of the two representations of a bundle is the active one.\<close>

definition one_representation :: "Bundle \<Rightarrow> bool" where
  "one_representation b \<longleftrightarrow> streamlines_visible b \<noteq> centroids_visible b"

section \<open>Predicates on sessions\<close>

text \<open>An operation returns normally and its result satisfies \<open>P\<close>.\<close>

definition returns :: "error + 'a \<Rightarrow> ('a \<Rightarrow> bool) \<Rightarrow> bool" where
  "returns r P = (case r of Inl e \<Rightarrow> False | Inr x \<Rightarrow> P x)"

definition registered :: "string \<Rightarrow> StreamlinesVizu \<Rightarrow> bool" where
  "registered name s \<longleftrightarrow> bundles s name \<noteq> None"

text \<open>The key list is sorted, has no duplicates and holds exactly the keys of the map.\<close>

definition keys_ok :: "StreamlinesVizu \<Rightarrow> bool" where
  "keys_ok s \<longleftrightarrow> sorted (keys s) \<and> distinct (keys s) \<and> set (keys s) = dom (bundles s)"

text \<open>
  The state of a session between two events once the scene is initialised: the key list
  mirrors the map, every registered bundle has been added to the renderer, and the
  remembered background state is one of the two the code ever stores.
\<close>

definition registry_ok :: "StreamlinesVizu \<Rightarrow> bool" where
  "registry_ok s \<longleftrightarrow>
     scene s \<and> keys_ok s \<and>
     list_all (\<lambda>k. case bundles s k of None \<Rightarrow> False | Some r \<Rightarrow> ren (heap s r)) (keys s) \<and>
     (last_bundles_visibility_state s = ''dimmed'' \<or> last_bundles_visibility_state s = ''hidden'')"

text \<open>
  What \<open>select\<close> leaves alone: everything but the selection and the clustering state of the
  bundle objects.
\<close>

definition same_registry :: "StreamlinesVizu \<Rightarrow> StreamlinesVizu \<Rightarrow> bool" where
  "same_registry s s' \<longleftrightarrow>
     keys s' = keys s \<and> bundles s' = bundles s \<and> inliers s' = inliers s \<and>
     outliers s' = outliers s \<and> undo_memory s' = undo_memory s \<and>
     undo_maxlen s' = undo_maxlen s \<and>
     default_clustering_threshold s' = default_clustering_threshold s \<and>
     last_bundles_visibility_state s' = last_bundles_visibility_state s \<and>
     scene s' = scene s \<and>
     (\<forall>r. streamlines (heap s' r) = streamlines (heap s r) \<and> ren (heap s' r) = ren (heap s r))"

text \<open>
  The number of streamlines of the bundle registered under a key, and the order in which
  \<open>select_next\<close> walks the keys.
\<close>

definition bundle_size :: "StreamlinesVizu \<Rightarrow> string \<Rightarrow> nat" where
  "bundle_size s k = (case bundles s k of None \<Rightarrow> 0 | Some r \<Rightarrow> length (streamlines (heap s r)))"

definition selection_order :: "StreamlinesVizu \<Rightarrow> string list" where
  "selection_order s =
     map (\<lambda>i. keys s ! i) (rev (lexsort (keys s) (map (bundle_size s) (keys s))))"


text \<open>Every listed bundle has at least one streamline.\<close>

definition bundles_nonempty :: "StreamlinesVizu \<Rightarrow> bool" where
  "bundles_nonempty s = list_all (\<lambda>k. bundle_size s k \<noteq> 0) (keys s)"

text \<open>The undo record an accept or reject action memorises in a given state.\<close>

definition record_of :: "curation \<Rightarrow> StreamlinesVizu \<Rightarrow> undo_entry" where
  "record_of a s =
     \<lparr>action = (case a of Accept \<Rightarrow> ''like'' | Reject \<Rightarrow> ''dislike''),
      bundle_name = the (selected_bundle s),
      bundle_ref = the (bundles s (the (selected_bundle s)))\<rparr>"


section \<open>Properties of Bundle\<close>

lemma Bundle_cluster_fields [simp]:
  "streamlines_visible (Bundle_cluster E t b) = streamlines_visible b"
  "centroids_visible (Bundle_cluster E t b) = centroids_visible b"
  "streamlines (Bundle_cluster E t b) = streamlines b"
  "color (Bundle_cluster E t b) = color b"
  "ren (Bundle_cluster E t b) = ren b"
  "has_changed (Bundle_cluster E t b)"
  "clusters (Bundle_cluster E t b) = Some (qb_cluster E t (streamlines b))"
  "last_threshold (Bundle_cluster E t b) = Some t"
  by (simp_all add: Bundle_cluster_def Let_def)

lemma update_Inr:
  "update b = Inr b' \<Longrightarrow>
     streamlines_visible b' = streamlines_visible b \<and> centroids_visible b' = centroids_visible b \<and>
     streamlines b' = streamlines b \<and> color b' = color b \<and> ren b' = ren b \<and>
     clusters b' = clusters b \<and> clusters_colors b' = clusters_colors b \<and>
     last_threshold b' = last_threshold b"
  by (auto simp: update_def split: if_splits)

lemma constructed_fields [simp]:
  "streamlines_visible (constructed E sl cen thr col)"
  "\<not> centroids_visible (constructed E sl cen thr col)"
  "streamlines (constructed E sl cen thr col) = sl"
  "color (constructed E sl cen thr col) = col"
  "\<not> ren (constructed E sl cen thr col)"
  "has_changed (constructed E sl cen thr col)"
  "clusters (constructed E sl cen thr col) = Some (qb_cluster E np_inf sl)"
  "last_threshold (constructed E sl cen thr col) = Some np_inf"
  by (simp_all add: constructed_def Bundle_fields_def)

lemma Bundle_init_Inr:
  "Bundle_init E sl cen thr col = Inr b \<longleftrightarrow> sl \<noteq> [] \<and> b = constructed E sl cen thr col"
  by (auto simp: Bundle_init_def)

lemma Bundle_init_nonempty [simp]:
  "sl \<noteq> [] \<Longrightarrow> Bundle_init E sl cen thr col = Inr (constructed E sl cen thr col)"
  by (simp add: Bundle_init_def)

lemma show_centroids_Inr:
  "show_centroids b = Inr b' \<Longrightarrow>
     centroids_visible b' \<and> streamlines_visible b' = streamlines_visible b"
  by (auto simp: show_centroids_def update_def split: if_splits)

lemma preview_Inr:
  "preview E t b = Inr (b', n) \<Longrightarrow>
     update (Bundle_cluster E t b) = Inr b' \<and> n = length (qb_cluster E t (streamlines b))"
  by (auto simp: preview_def update_def split: if_splits)

text \<open>With a renderer attached, \<open>preview\<close> and \<open>reset\<close> do not raise.\<close>

lemma preview_attached:
  "ren b \<Longrightarrow>
     preview E t b =
       Inr ((Bundle_cluster E t b)\<lparr>has_changed := False\<rparr>, length (qb_cluster E t (streamlines b)))"
  by (simp add: preview_def update_def)

lemma reset_attached:
  "ren b \<Longrightarrow> reset E b = Inr ((Bundle_cluster E np_inf b)\<lparr>has_changed := False\<rparr>)"
  by (simp add: reset_def update_def)

text \<open>
  Every bundle a program can hold has at least one streamline and a clustering stored:
  the constructor clusters at infinity before it returns, and no operation takes the
  clustering away.
\<close>

lemma built_invariant:
  "built E b \<Longrightarrow> streamlines b \<noteq> [] \<and> clusters b \<noteq> None \<and> last_threshold b \<noteq> None"
proof (induction rule: built.induct)
  case (by_init sl cen thr col b)
  then show ?case by (auto simp: Bundle_init_Inr)
next
  case (by_add_to_renderer b)
  then show ?case by (simp add: add_to_renderer_def)
next
  case (by_update b b')
  with update_Inr [of b b'] show ?case by simp
next
  case (by_show_centroids b b')
  then show ?case by (auto simp: show_centroids_def update_def split: if_splits)
next
  case (by_hide_centroids b)
  then show ?case by (simp add: hide_centroids_def)
next
  case (by_show_streamlines b)
  then show ?case by (simp add: show_streamlines_def)
next
  case (by_hide_streamlines b)
  then show ?case by (simp add: hide_streamlines_def)
next
  case (by_preview b t b' n)
  from preview_Inr [OF by_preview(2)] update_Inr [of "Bundle_cluster E t b" b'] by_preview(3)
  show ?case by simp
next
  case (by_reset b b')
  from update_Inr [of "Bundle_cluster E np_inf b" b'] by_reset(2,3)
  show ?case by (simp add: reset_def)
qed






text \<open>
  Claim C8, as stated: after every show or hide operation exactly one of the two
  visibility flags is set. It fails: \<open>hide_streamlines\<close> on a freshly constructed bundle
  clears the only flag that was set and leaves both off.
\<close>

theorem hide_streamlines_counterexample:
  "returns (Bundle_init example_env [line_y 0] None (Some np_inf) None)
     (\<lambda>b. streamlines_visible b \<and> \<not> centroids_visible b \<and>
          \<not> streamlines_visible (hide_streamlines b) \<and>
          \<not> centroids_visible (hide_streamlines b) \<and>
          \<not> one_representation (hide_streamlines b))"
  by (simp add: returns_def one_representation_def hide_streamlines_def)

text \<open>
  Claim C8, amended. The constructor returns a bundle with the streamlines flag set and
  the centroids flag cleared. \<open>show_centroids\<close> sets and \<open>hide_centroids\<close> clears the
  centroids flag, and both leave the streamlines flag as it was; \<open>show_streamlines\<close> sets and
  \<open>hide_streamlines\<close> clears the streamlines flag, and both leave the centroids flag as it
  was. \<open>preview\<close>, \<open>reset\<close>, \<open>update\<close> and \<open>add_to_renderer\<close> change neither flag. So
  \<open>show_centroids\<close> followed by \<open>hide_streamlines\<close> leaves the centroids flag set and the
  streamlines flag cleared, and \<open>hide_centroids\<close> followed by \<open>show_streamlines\<close> leaves the
  streamlines flag set and the centroids flag cleared, whatever the state before: after
  each of the two pairs exactly one flag is set.
\<close>

theorem visibility_flags:
  "(Bundle_init E sl cen thr col = Inr b0 \<longrightarrow>
      streamlines_visible b0 \<and> \<not> centroids_visible b0 \<and> one_representation b0) \<and>
   (show_centroids b = Inr b1 \<longrightarrow>
      centroids_visible b1 \<and> streamlines_visible b1 = streamlines_visible b) \<and>
   (\<not> centroids_visible (hide_centroids b) \<and>
      streamlines_visible (hide_centroids b) = streamlines_visible b) \<and>
   (streamlines_visible (show_streamlines b) \<and>
      centroids_visible (show_streamlines b) = centroids_visible b) \<and>
   (\<not> streamlines_visible (hide_streamlines b) \<and>
      centroids_visible (hide_streamlines b) = centroids_visible b) \<and>
   (preview E t b = Inr (b2, n) \<longrightarrow>
      streamlines_visible b2 = streamlines_visible b \<and>
      centroids_visible b2 = centroids_visible b) \<and>
   (reset E b = Inr b3 \<longrightarrow>
      streamlines_visible b3 = streamlines_visible b \<and>
      centroids_visible b3 = centroids_visible b) \<and>
   (update b = Inr b4 \<longrightarrow>
      streamlines_visible b4 = streamlines_visible b \<and>
      centroids_visible b4 = centroids_visible b) \<and>
   (streamlines_visible (add_to_renderer b) = streamlines_visible b \<and>
      centroids_visible (add_to_renderer b) = centroids_visible b) \<and>
   (show_centroids b = Inr b1 \<longrightarrow>
      centroids_visible (hide_streamlines b1) \<and> \<not> streamlines_visible (hide_streamlines b1) \<and>
      one_representation (hide_streamlines b1)) \<and>
   (streamlines_visible (show_streamlines (hide_centroids b)) \<and>
      \<not> centroids_visible (show_streamlines (hide_centroids b)) \<and>
      one_representation (show_streamlines (hide_centroids b)))"
proof -
  have c0: "Bundle_init E sl cen thr col = Inr b0 \<longrightarrow>
      streamlines_visible b0 \<and> \<not> centroids_visible b0 \<and> one_representation b0"
    by (auto simp: Bundle_init_Inr one_representation_def)
  have c1: "show_centroids b = Inr b1 \<longrightarrow>
      centroids_visible b1 \<and> streamlines_visible b1 = streamlines_visible b"
    using show_centroids_Inr [of b b1] by simp
  have c2: "\<not> centroids_visible (hide_centroids b) \<and>
      streamlines_visible (hide_centroids b) = streamlines_visible b"
    by (simp add: hide_centroids_def)
  have c3: "streamlines_visible (show_streamlines b) \<and>
      centroids_visible (show_streamlines b) = centroids_visible b"
    by (simp add: show_streamlines_def)
  have c4: "\<not> streamlines_visible (hide_streamlines b) \<and>
      centroids_visible (hide_streamlines b) = centroids_visible b"
    by (simp add: hide_streamlines_def)
  have c5: "preview E t b = Inr (b2, n) \<longrightarrow>
      streamlines_visible b2 = streamlines_visible b \<and>
      centroids_visible b2 = centroids_visible b"
    using preview_Inr [of E t b b2 n] update_Inr [of "Bundle_cluster E t b" b2] by simp
  have c6: "reset E b = Inr b3 \<longrightarrow>
      streamlines_visible b3 = streamlines_visible b \<and>
      centroids_visible b3 = centroids_visible b"
    using update_Inr [of "Bundle_cluster E np_inf b" b3] by (simp add: reset_def)
  have c7: "update b = Inr b4 \<longrightarrow>
      streamlines_visible b4 = streamlines_visible b \<and>
      centroids_visible b4 = centroids_visible b"
    using update_Inr [of b b4] by simp
  have c8: "streamlines_visible (add_to_renderer b) = streamlines_visible b \<and>
      centroids_visible (add_to_renderer b) = centroids_visible b"
    by (simp add: add_to_renderer_def)
  have c9: "show_centroids b = Inr b1 \<longrightarrow>
      centroids_visible (hide_streamlines b1) \<and> \<not> streamlines_visible (hide_streamlines b1) \<and>
      one_representation (hide_streamlines b1)"
    using show_centroids_Inr [of b b1] by (simp add: hide_streamlines_def one_representation_def)
  have c10: "streamlines_visible (show_streamlines (hide_centroids b)) \<and>
      \<not> centroids_visible (show_streamlines (hide_centroids b)) \<and>
      one_representation (show_streamlines (hide_centroids b))"
    by (simp add: show_streamlines_def hide_centroids_def one_representation_def)
  from c0 c1 c2 c3 c4 c5 c6 c7 c8 c9 c10 show ?thesis by blast
qed

theorem visibility_flags_witness:
  "Bundle_init example_env [line_y 0] None (Some np_inf) None
     = Inr (constructed example_env [line_y 0] None (Some np_inf) None) \<and>
   streamlines_visible (constructed example_env [line_y 0] None (Some np_inf) None) \<and>
   \<not> centroids_visible (constructed example_env [line_y 0] None (Some np_inf) None) \<and>
   show_centroids attached_bundle
     = Inr (attached_bundle\<lparr>has_changed := False, centroids_visible := True\<rparr>) \<and>
   centroids_visible (attached_bundle\<lparr>has_changed := False, centroids_visible := True\<rparr>) \<and>
   streamlines_visible (attached_bundle\<lparr>has_changed := False, centroids_visible := True\<rparr>) \<and>
   centroids_visible
     (hide_streamlines (attached_bundle\<lparr>has_changed := False, centroids_visible := True\<rparr>)) \<and>
   \<not> streamlines_visible
     (hide_streamlines (attached_bundle\<lparr>has_changed := False, centroids_visible := True\<rparr>)) \<and>
   preview example_env (Thr 3) attached_bundle
     = Inr ((Bundle_cluster example_env (Thr 3) attached_bundle)\<lparr>has_changed := False\<rparr>,
            length (qb_cluster example_env (Thr 3) (streamlines attached_bundle))) \<and>
   streamlines_visible ((Bundle_cluster example_env (Thr 3) attached_bundle)\<lparr>has_changed := False\<rparr>) \<and>
   \<not> centroids_visible ((Bundle_cluster example_env (Thr 3) attached_bundle)\<lparr>has_changed := False\<rparr>) \<and>
   reset example_env attached_bundle
     = Inr ((Bundle_cluster example_env np_inf attached_bundle)\<lparr>has_changed := False\<rparr>) \<and>
   streamlines_visible ((Bundle_cluster example_env np_inf attached_bundle)\<lparr>has_changed := False\<rparr>) \<and>
   \<not> centroids_visible ((Bundle_cluster example_env np_inf attached_bundle)\<lparr>has_changed := False\<rparr>) \<and>
   update attached_bundle = Inr (attached_bundle\<lparr>has_changed := False\<rparr>) \<and>
   streamlines_visible (attached_bundle\<lparr>has_changed := False\<rparr>) \<and>
   \<not> centroids_visible (attached_bundle\<lparr>has_changed := False\<rparr>)"
proof -
  have r: "ren attached_bundle"
    by (simp add: attached_bundle_def add_to_renderer_def)
  have h: "has_changed attached_bundle"
    by (simp add: attached_bundle_def add_to_renderer_def)
  have f: "streamlines_visible attached_bundle" "\<not> centroids_visible attached_bundle"
    by (simp_all add: attached_bundle_def add_to_renderer_def)
  have i: "Bundle_init example_env [line_y 0] None (Some np_inf) None
             = Inr (constructed example_env [line_y 0] None (Some np_inf) None)"
    by simp
  have u: "update attached_bundle = Inr (attached_bundle\<lparr>has_changed := False\<rparr>)"
    using r h by (simp add: update_def)
  have s: "show_centroids attached_bundle
             = Inr (attached_bundle\<lparr>has_changed := False, centroids_visible := True\<rparr>)"
    using u by (simp add: show_centroids_def)
  note p = preview_attached [OF r, of example_env "Thr 3"]
  note q = reset_attached [OF r, of example_env]
  from visibility_flags
         [of example_env "[line_y 0]" None "Some np_inf" None
             "constructed example_env [line_y 0] None (Some np_inf) None"
             attached_bundle
             "attached_bundle\<lparr>has_changed := False, centroids_visible := True\<rparr>"
             "Thr 3" "(Bundle_cluster example_env (Thr 3) attached_bundle)\<lparr>has_changed := False\<rparr>"
             "length (qb_cluster example_env (Thr 3) (streamlines attached_bundle))"
             "(Bundle_cluster example_env np_inf attached_bundle)\<lparr>has_changed := False\<rparr>"
             "attached_bundle\<lparr>has_changed := False\<rparr>"]
    i u s p q f
  show ?thesis by simp
qed

section \<open>Properties of the curation session\<close>

text \<open>
  Claim C7. With an empty undo memory \<open>undo\<close> returns normally and leaves the session as it
  was: the bundle map, the inliers and the outliers are unchanged.
\<close>

theorem undo_empty_memory:
  "undo_memory s = [] \<Longrightarrow>
     undo E s = Inr s \<and>
     (\<forall>s'. undo E s = Inr s' \<longrightarrow>
        bundles s' = bundles s \<and> inliers s' = inliers s \<and> outliers s' = outliers s)"
  by (simp add: undo_def)

theorem undo_empty_memory_witness:
  "undo_memory (example_session (Some 2)) = [] \<and>
   undo example_env (example_session (Some 2)) = Inr (example_session (Some 2))"
  using undo_empty_memory [of "example_session (Some 2)" example_env]
  by (simp add: example_session_def)

subsection \<open>Selection leaves the registry alone\<close>

lemma and_then_simps [simp]:
  "and_then (Inr x) f = f x"
  "and_then (Inl e) f = Inl e"
  by (simp_all add: and_then_def)

lemma and_then_Inr_iff:
  "and_then r f = Inr y \<longleftrightarrow> (\<exists>x. r = Inr x \<and> f x = Inr y)"
  by (cases r) simp_all

lemma same_registry_refl [simp]: "same_registry s s"
  by (simp add: same_registry_def)

lemma same_registry_trans:
  "same_registry s s1 \<Longrightarrow> same_registry s1 s2 \<Longrightarrow> same_registry s s2"
  by (simp add: same_registry_def)

lemma reset_Inr:
  "reset E b = Inr b' \<Longrightarrow> streamlines b' = streamlines b \<and> ren b' = ren b"
  using update_Inr [of "Bundle_cluster E np_inf b" b'] by (simp add: reset_def)

lemma preview_Inr_frame:
  "preview E t b = Inr bn \<Longrightarrow> streamlines (fst bn) = streamlines b \<and> ren (fst bn) = ren b"
  using preview_Inr [of E t b "fst bn" "snd bn"] update_Inr [of "Bundle_cluster E t b" "fst bn"]
  by simp

lemma unselect_frame:
  assumes "unselect E s = Inr s'"
  shows "same_registry s s' \<and> selected_bundle s' = selected_bundle s"
proof (cases "selected_bundle s")
  case None
  with assms show ?thesis by (simp add: unselect_def)
next
  case (Some k)
  show ?thesis
  proof (cases "bundles s k")
    case None
    with Some assms show ?thesis by (simp add: unselect_def)
  next
    case (Some r)
    with \<open>selected_bundle s = Some k\<close> assms obtain b where
      b: "reset E (heap s r) = Inr b" and s': "s' = s\<lparr>heap := (heap s)(r := b)\<rparr>"
      by (auto simp: unselect_def and_then_Inr_iff)
    from reset_Inr [OF b] s' show ?thesis by (simp add: same_registry_def)
  qed
qed

lemma set_bundles_visibility_frame:
  "set_bundles_visibility st s = Inr s' \<Longrightarrow>
     s' = s\<lparr>last_bundles_visibility_state := (if st = ''visible'' then last_bundles_visibility_state s else st)\<rparr>
     \<and> scene s \<and> (st = ''visible'' \<or> st = ''dimmed'' \<or> st = ''hidden'')"
  by (auto simp: set_bundles_visibility_def split: if_splits)

lemma select_frame:
  assumes "select E t s = Inr s'"
  shows "same_registry s s' \<and> selected_bundle s' = t"
proof -
  from assms obtain s1 where u: "unselect E s = Inr s1"
    and rest: "(case t of
         None \<Rightarrow>
           and_then (set_bundles_visibility ''visible'' (s1\<lparr>selected_bundle := None\<rparr>)) Inr
       | Some name \<Rightarrow>
           (case bundles s1 name of
              None \<Rightarrow> Inl KeyError
            | Some r \<Rightarrow>
                and_then (set_bundles_visibility ''visible'' (s1\<lparr>selected_bundle := Some name\<rparr>)) (\<lambda>s2.
                and_then (set_bundles_visibility (last_bundles_visibility_state s2) s2) (\<lambda>s3.
                and_then (preview E (slider_value E (default_clustering_threshold s3)
                                       (streamlines (heap s3 r))) (heap s3 r)) (\<lambda>bn.
                Inr (s3\<lparr>heap := (heap s3)(r := fst bn)\<rparr>)))))) = Inr s'"
    by (auto simp: select_def and_then_Inr_iff)
  from unselect_frame [OF u] have f1: "same_registry s s1" by simp
  have "same_registry s1 s' \<and> selected_bundle s' = t"
  proof (cases t)
    case None
    with rest show ?thesis
      by (auto simp: and_then_Inr_iff same_registry_def dest!: set_bundles_visibility_frame)
  next
    case (Some name)
    with rest obtain r where r: "bundles s1 name = Some r" by (auto split: option.splits)
    with rest Some obtain s2 s3 bn where
      a: "set_bundles_visibility ''visible'' (s1\<lparr>selected_bundle := Some name\<rparr>) = Inr s2" and
      b: "set_bundles_visibility (last_bundles_visibility_state s2) s2 = Inr s3" and
      c: "preview E (slider_value E (default_clustering_threshold s3) (streamlines (heap s3 r))) (heap s3 r) = Inr bn" and
      d: "s' = s3\<lparr>heap := (heap s3)(r := fst bn)\<rparr>"
      by (auto simp: and_then_Inr_iff)
    from set_bundles_visibility_frame [OF a] have s2: "s2 = s1\<lparr>selected_bundle := Some name\<rparr>" by simp
    from set_bundles_visibility_frame [OF b] have s3: "s3 = s2" by auto
    from preview_Inr_frame [OF c] d s2 s3 Some show ?thesis
      by (simp add: same_registry_def)
  qed
  with f1 show ?thesis by (auto intro: same_registry_trans)
qed


lemma registry_ok_same:
  "registry_ok s \<Longrightarrow> same_registry s s' \<Longrightarrow> registry_ok s'"
  by (auto simp: registry_ok_def same_registry_def keys_ok_def list_all_iff split: option.splits)

lemma registry_ok_ren:
  assumes "registry_ok s" "bundles s k = Some r"
  shows "ren (heap s r)"
proof -
  from assms have "k \<in> set (keys s)" by (auto simp: registry_ok_def keys_ok_def)
  with assms show ?thesis by (auto simp: registry_ok_def list_all_iff)
qed

lemma unselect_succeeds:
  assumes "registry_ok s"
  shows "\<exists>s'. unselect E s = Inr s'"
proof (cases "selected_bundle s")
  case None
  then show ?thesis by (simp add: unselect_def)
next
  case (Some k)
  show ?thesis
  proof (cases "bundles s k")
    case None
    with Some show ?thesis by (simp add: unselect_def)
  next
    case (Some r)
    with assms have "ren (heap s r)" by (rule registry_ok_ren)
    with Some \<open>selected_bundle s = Some k\<close> show ?thesis
      by (simp add: unselect_def reset_attached)
  qed
qed

lemma select_succeeds:
  assumes ok: "registry_ok s" and r: "bundles s name = Some r"
  shows "\<exists>s'. select E (Some name) s = Inr s'"
proof -
  from unselect_succeeds [OF ok] obtain s1 where u: "unselect E s = Inr s1" by blast
  from unselect_frame [OF u] have same: "same_registry s s1" by simp
  with ok have ok1: "registry_ok s1" by (rule registry_ok_same)
  from same r have r1: "bundles s1 name = Some r" by (simp add: same_registry_def)
  from ok1 r1 have ren: "ren (heap s1 r)" by (rule registry_ok_ren)
  from ok1 have sc: "scene s1" and
    st: "last_bundles_visibility_state s1 = ''dimmed'' \<or> last_bundles_visibility_state s1 = ''hidden''"
    by (simp_all add: registry_ok_def)
  have a: "set_bundles_visibility ''visible'' (s1\<lparr>selected_bundle := Some name\<rparr>)
             = Inr (s1\<lparr>selected_bundle := Some name\<rparr>)"
    using sc by (simp add: set_bundles_visibility_def)
  have b: "set_bundles_visibility (last_bundles_visibility_state s1) (s1\<lparr>selected_bundle := Some name\<rparr>)
             = Inr (s1\<lparr>selected_bundle := Some name\<rparr>)"
    using sc st by (auto simp: set_bundles_visibility_def)
  show ?thesis
    using u r1 a b ren by (simp add: select_def preview_attached)
qed

lemma collect_map_Inr:
  "(\<And>x. x \<in> set xs \<Longrightarrow> f x = Inr (g x)) \<Longrightarrow> collect (map f xs) = Inr (map g xs)"
  by (induction xs) simp_all

lemma bundle_sizes_ok:
  assumes "set (keys s) \<subseteq> dom (bundles s)"
  shows "bundle_sizes s = Inr (map (bundle_size s) (keys s))"
  unfolding bundle_sizes_def
  by (rule collect_map_Inr) (use assms in \<open>auto simp: bundle_size_def split: option.splits\<close>)

lemma lexsort_set [simp]: "set (lexsort ks sz) = {0..<length ks}"
  by (simp add: lexsort_def)

lemma lexsort_distinct [simp]: "distinct (lexsort ks sz)"
  by (simp add: lexsort_def)

lemma lexsort_length [simp]: "length (lexsort ks sz) = length ks"
  by (simp add: lexsort_def)

lemma index_of_nth:
  "distinct xs \<Longrightarrow> i < length xs \<Longrightarrow> index_of (xs ! i) xs = Some i"
proof (induction xs arbitrary: i)
  case Nil
  then show ?case by simp
next
  case (Cons x xs)
  show ?case
  proof (cases i)
    case 0
    then show ?thesis by simp
  next
    case (Suc j)
    with Cons.prems have "xs ! j \<in> set xs" "x \<notin> set xs" by auto
    then have "xs ! j \<noteq> x" by auto
    with Suc Cons show ?thesis by auto
  qed
qed

subsection \<open>The key list and the bundle map\<close>

lemma example_dom:
  "dom (bundles (example_session m)) = set (keys (example_session m))"
  by (auto simp: example_session_def)

lemma example_keys_ok: "keys_ok (example_session m)"
  using example_dom [of m] by (simp add: keys_ok_def example_session_def less_eq_char_def)

lemma example_registry_ok: "registry_ok (example_session m)"
  using example_keys_ok [of m]
  by (simp add: registry_ok_def example_session_def add_to_renderer_def)

lemma add_bundle_scene:
  "scene s \<Longrightarrow> add_bundle name r s =
     Inr (s\<lparr>keys := sort (keys s @ [name]),
            heap := (heap s)(r := add_to_renderer (heap s r)),
            bundles := (bundles s)(name \<mapsto> r)\<rparr>)"
  by (simp add: add_bundle_def)

text \<open>The session as \<^verbatim>\<open>main\<close> sets it up is well formed.\<close>

lemma initial_registry_ok:
  assumes "StreamlinesVizu_init E tr dct ums = Inr s" "initialize_scene s = Inr s'"
  shows "registry_ok s'"
proof -
  from assms(1) have f: "bundles s = [''/'' \<mapsto> 0]" "keys s = [''/'']"
    "last_bundles_visibility_state s = ''dimmed''"
    by (auto simp: StreamlinesVizu_init_def and_then_Inr_iff split: if_splits)
  with assms(2) have s': "s' = s\<lparr>heap := (heap s)(0 := add_to_renderer (heap s 0)), scene := True\<rparr>"
    by (simp add: initialize_scene_def)
  show ?thesis
    by (simp add: s' f registry_ok_def keys_ok_def add_to_renderer_def)
qed

text \<open>
  Claim C10, as stated: after every \<open>add_bundle\<close> the key list is sorted, has no duplicates
  and holds exactly the keys of the map. It fails when the name is already registered:
  \<open>add_bundle\<close> appends the name without looking it up, so the key list holds it twice while
  the map holds it once.
\<close>

theorem add_bundle_duplicate_counterexample:
  "keys_ok (example_session (Some 2)) \<and>
   returns (add_bundle ''/1/'' 1 (example_session (Some 2))) (Not \<circ> keys_ok)"
proof -
  have "scene (example_session (Some 2))" by (simp add: example_session_def)
  then have "returns (add_bundle ''/1/'' 1 (example_session (Some 2))) (Not \<circ> keys_ok)"
    by (simp add: add_bundle_scene returns_def keys_ok_def example_session_def less_eq_char_def)
  with example_keys_ok show ?thesis by simp
qed

lemma init_keys_ok:
  "StreamlinesVizu_init E tr dct ums = Inr s \<Longrightarrow> keys_ok s"
  by (auto simp: StreamlinesVizu_init_def keys_ok_def and_then_Inr_iff split: if_splits)

lemma initialize_scene_keys_ok:
  "keys_ok s \<Longrightarrow> initialize_scene s = Inr s' \<Longrightarrow> keys_ok s'"
  by (auto simp: initialize_scene_def keys_ok_def split: option.splits)

lemma add_bundle_keys_ok:
  assumes "keys_ok s" "name \<notin> dom (bundles s)" "add_bundle name r s = Inr s'"
  shows "keys_ok s'"
proof -
  from assms(3) have s': "keys s' = sort (keys s @ [name])" "bundles s' = (bundles s)(name \<mapsto> r)"
    by (auto simp: add_bundle_def split: if_splits)
  from assms(1,2) have "name \<notin> set (keys s)" by (simp add: keys_ok_def)
  with assms(1) s' show ?thesis by (auto simp: keys_ok_def)
qed

lemma remove_bundle_keys_ok:
  assumes "keys_ok s" "remove_bundle name s = Inr s'"
  shows "keys_ok s'"
proof -
  from assms(2) have s': "keys s' = sort (remove1 name (keys s))" "bundles s' = (bundles s)(name := None)"
    by (auto simp: remove_bundle_def split: if_splits option.splits)
  with assms(1) show ?thesis by (auto simp: keys_ok_def)
qed


text \<open>
  Claim C10, amended. The constructor, given a tractogram with a streamline (it builds the
  root bundle, and raises otherwise), leaves a sorted, duplicate-free key list that holds
  exactly the keys of the map; \<open>add_bundle\<close> with a name that is not yet registered and
  \<open>remove_bundle\<close> of a listed name return normally and keep it so.
\<close>

theorem keys_mirror_bundles:
  "(tr \<noteq> [] \<longrightarrow> returns (StreamlinesVizu_init E tr dct None) keys_ok) \<and>
   (tr \<noteq> [] \<and> 0 \<le> n \<longrightarrow> returns (StreamlinesVizu_init E tr dct (Some n)) keys_ok) \<and>
   (keys_ok s \<and> scene s \<and> name \<notin> dom (bundles s) \<longrightarrow> returns (add_bundle name r s) keys_ok) \<and>
   (keys_ok s \<and> scene s \<and> name' \<in> set (keys s) \<longrightarrow> returns (remove_bundle name' s) keys_ok)"
proof -
  have i: "returns (StreamlinesVizu_init E tr dct ums) keys_ok"
    if "tr \<noteq> []" "\<not> (case ums of None \<Rightarrow> False | Some n \<Rightarrow> n < 0)" for ums
  proof -
    from that obtain s0 where s0: "StreamlinesVizu_init E tr dct ums = Inr s0"
      by (simp add: StreamlinesVizu_init_def)
    with init_keys_ok [OF s0] show ?thesis by (simp add: returns_def)
  qed
  have a: "returns (add_bundle name r s) keys_ok"
    if "keys_ok s" "scene s" "name \<notin> dom (bundles s)"
  proof -
    from that(2) obtain s1 where s1: "add_bundle name r s = Inr s1"
      by (simp add: add_bundle_def)
    with add_bundle_keys_ok [OF that(1,3) s1] show ?thesis by (simp add: returns_def)
  qed
  have d: "returns (remove_bundle name' s) keys_ok"
    if "keys_ok s" "scene s" "name' \<in> set (keys s)"
  proof -
    from that obtain r' where "bundles s name' = Some r'" by (auto simp: keys_ok_def)
    with that obtain s2 where s2: "remove_bundle name' s = Inr s2"
      by (simp add: remove_bundle_def)
    with remove_bundle_keys_ok [OF that(1) s2] show ?thesis by (simp add: returns_def)
  qed
  from i [of None] i [of "Some n"] a d show ?thesis by simp
qed

theorem keys_mirror_bundles_witness:
  "[line_y 0] \<noteq> [] \<and>
   returns (StreamlinesVizu_init example_env [line_y 0] None None) keys_ok \<and>
   (0::int) \<le> 2 \<and>
   returns (StreamlinesVizu_init example_env [line_y 0] None (Some 2)) keys_ok \<and>
   keys_ok (example_session (Some 2)) \<and> scene (example_session (Some 2)) \<and>
   ''/3/'' \<notin> dom (bundles (example_session (Some 2))) \<and>
   returns (add_bundle ''/3/'' 3 (example_session (Some 2))) keys_ok \<and>
   ''/1/'' \<in> set (keys (example_session (Some 2))) \<and>
   returns (remove_bundle ''/1/'' (example_session (Some 2))) keys_ok"
proof -
  have h: "scene (example_session (Some 2))"
    "''/3/'' \<notin> dom (bundles (example_session (Some 2)))"
    "''/1/'' \<in> set (keys (example_session (Some 2)))"
    by (simp_all add: example_session_def)
  show ?thesis
    using keys_mirror_bundles [where E = example_env and tr = "[line_y 0]" and dct = None
            and n = 2 and s = "example_session (Some 2)" and name = "''/3/''" and r = 3
            and name' = "''/1/''"]
      example_keys_ok [of "Some 2"] h
    by simp
qed

subsection \<open>Children of a clustered bundle\<close>

lemma colors_assigned_cluster [simp]: "colors_assigned E (Bundle_cluster E t b)"
  by (simp add: colors_assigned_def Bundle_cluster_def Let_def)

lemma colors_assigned_init [simp]: "colors_assigned E (constructed E sl cen thr col)"
  by (simp add: constructed_def)

lemma colors_assigned_update:
  "update b = Inr b' \<Longrightarrow> colors_assigned E b' = colors_assigned E b"
  using update_Inr [of b b'] by (auto simp: colors_assigned_def split: option.splits)

lemma colors_assigned_toggles [simp]:
  "colors_assigned E (hide_centroids b) = colors_assigned E b"
  "colors_assigned E (show_streamlines b) = colors_assigned E b"
  "colors_assigned E (hide_streamlines b) = colors_assigned E b"
  "colors_assigned E (add_to_renderer b) = colors_assigned E b"
  by (simp_all add: colors_assigned_def hide_centroids_def show_streamlines_def
      hide_streamlines_def add_to_renderer_def split: option.splits)

lemma child_bundle_valid:
  "indices c \<noteq> [] \<Longrightarrow> list_all (\<lambda>i. i < length (streamlines b)) (indices c) \<Longrightarrow>
     child_bundle E b c col =
       Inr (constructed E (map (\<lambda>i. streamlines b ! i) (indices c)) (Some (centroid c))
              (last_threshold b) col)"
  by (simp add: child_bundle_def)

lemma children_of_many:
  assumes cs: "clusters b = Some cs" and n: "length cs \<noteq> 1"
    and cols: "length (clusters_colors b) = length cs" and v: "indices_valid b cs"
  shows "\<exists>children. get_cluster_as_bundles E b = Inr children \<and>
           map color children = clusters_colors b \<and>
           map streamlines children = map (\<lambda>c. map (\<lambda>i. streamlines b ! i) (indices c)) cs"
proof -
  let ?g = "\<lambda>(c, col). constructed E (map (\<lambda>i. streamlines b ! i) (indices c)) (Some (centroid c))
              (last_threshold b) col"
  have "collect (map (\<lambda>(c, col). child_bundle E b c col) (zip cs (clusters_colors b)))
          = Inr (map ?g (zip cs (clusters_colors b)))"
  proof (rule collect_map_Inr)
    fix x assume "x \<in> set (zip cs (clusters_colors b))"
    then have "fst x \<in> set cs"
      using set_zip_leftD [of "fst x" "snd x" cs "clusters_colors b"] by simp
    with v have "indices (fst x) \<noteq> []"
      "list_all (\<lambda>i. i < length (streamlines b)) (indices (fst x))"
      by (simp_all add: indices_valid_def list_all_iff)
    then show "(case x of (c, col) \<Rightarrow> child_bundle E b c col) = Inr (?g x)"
      by (simp add: child_bundle_valid split_beta)
  qed
  with cs n have g: "get_cluster_as_bundles E b = Inr (map ?g (zip cs (clusters_colors b)))"
    by (simp add: get_cluster_as_bundles_def)
  have "map color (map ?g (zip cs (clusters_colors b))) = map snd (zip cs (clusters_colors b))"
    by (simp add: split_beta)
  also have "\<dots> = clusters_colors b" using cols by simp
  finally have c1: "map color (map ?g (zip cs (clusters_colors b))) = clusters_colors b" .
  have "map streamlines (map ?g (zip cs (clusters_colors b)))
          = map (\<lambda>c. map (\<lambda>i. streamlines b ! i) (indices c)) (map fst (zip cs (clusters_colors b)))"
    by (simp add: split_beta)
  also have "\<dots> = map (\<lambda>c. map (\<lambda>i. streamlines b ! i) (indices c)) cs" using cols by simp
  finally show ?thesis using g c1 by blast
qed

text \<open>
  Claim C6. For a bundle as \<^verbatim>\<open>_cluster\<close> leaves it, whose cluster indices lie within its
  streamlines: with exactly one cluster \<open>get_cluster_as_bundles\<close> returns exactly one child,
  and its colour is the parent's colour; with two or more clusters it returns one child per
  cluster, in order, the \<open>i\<close>-th with the \<open>i\<close>-th generated colour. Every child holds the
  streamlines of its cluster.
\<close>

theorem children_colors:
  "colors_assigned E b \<Longrightarrow> clusters b = Some cs \<Longrightarrow> indices_valid b cs \<Longrightarrow>
     (length cs = 1 \<longrightarrow>
        (\<exists>child. get_cluster_as_bundles E b = Inr [child] \<and> color child = color b \<and>
                 streamlines child = map (\<lambda>i. streamlines b ! i) (indices (cs ! 0)))) \<and>
     (2 \<le> length cs \<longrightarrow>
        (\<exists>children. get_cluster_as_bundles E b = Inr children \<and>
           map color children = map (\<lambda>i. Some (distinguishable_colormap E i)) [0..<length cs] \<and>
           map streamlines children = map (\<lambda>c. map (\<lambda>i. streamlines b ! i) (indices c)) cs))"
proof (intro conjI impI)
  assume a: "colors_assigned E b" "clusters b = Some cs" "indices_valid b cs" "length cs = 1"
  then obtain c where c: "cs = [c]" by (cases cs) auto
  with a(3) have "indices c \<noteq> []" "list_all (\<lambda>i. i < length (streamlines b)) (indices c)"
    by (simp_all add: indices_valid_def)
  with a(2) c show "\<exists>child. get_cluster_as_bundles E b = Inr [child] \<and> color child = color b \<and>
                 streamlines child = map (\<lambda>i. streamlines b ! i) (indices (cs ! 0))"
    by (simp add: get_cluster_as_bundles_def child_bundle_valid)
next
  assume a: "colors_assigned E b" "clusters b = Some cs" "indices_valid b cs" "2 \<le> length cs"
  then have cols: "clusters_colors b = map (\<lambda>i. Some (distinguishable_colormap E i)) [0..<length cs]"
    by (simp add: colors_assigned_def)
  then have "length (clusters_colors b) = length cs" by simp
  from children_of_many [OF a(2) _ this a(3), of E] a(4) cols
  show "\<exists>children. get_cluster_as_bundles E b = Inr children \<and>
           map color children = map (\<lambda>i. Some (distinguishable_colormap E i)) [0..<length cs] \<and>
           map streamlines children = map (\<lambda>c. map (\<lambda>i. streamlines b ! i) (indices c)) cs"
    by auto
qed


theorem children_colors_witness:
  "colors_assigned example_env one_cluster_bundle \<and>
   clusters one_cluster_bundle = Some [\<lparr>indices = [0, 1], centroid = line_y 5\<rparr>] \<and>
   indices_valid one_cluster_bundle [\<lparr>indices = [0, 1], centroid = line_y 5\<rparr>] \<and>
   (\<exists>child. get_cluster_as_bundles example_env one_cluster_bundle = Inr [child] \<and>
      color child = Some (1, 0, 0) \<and> streamlines child = [line_y 0, line_y 10]) \<and>
   colors_assigned example_env two_cluster_bundle \<and>
   clusters two_cluster_bundle
     = Some [\<lparr>indices = [0], centroid = line_y 0\<rparr>, \<lparr>indices = [1], centroid = line_y 10\<rparr>] \<and>
   indices_valid two_cluster_bundle
     [\<lparr>indices = [0], centroid = line_y 0\<rparr>, \<lparr>indices = [1], centroid = line_y 10\<rparr>] \<and>
   (\<exists>children. get_cluster_as_bundles example_env two_cluster_bundle = Inr children \<and>
      map color children = [Some (distinguishable_colormap example_env 0),
                            Some (distinguishable_colormap example_env 1)] \<and>
      map streamlines children = [[line_y 0], [line_y 10]])"
proof -
  have one: "colors_assigned example_env one_cluster_bundle"
    "clusters one_cluster_bundle = Some [\<lparr>indices = [0, 1], centroid = line_y 5\<rparr>]"
    "indices_valid one_cluster_bundle [\<lparr>indices = [0, 1], centroid = line_y 5\<rparr>]"
    by (simp_all add: one_cluster_bundle_def colors_assigned_def indices_valid_def)
  have two: "colors_assigned example_env two_cluster_bundle"
    "clusters two_cluster_bundle
       = Some [\<lparr>indices = [0], centroid = line_y 0\<rparr>, \<lparr>indices = [1], centroid = line_y 10\<rparr>]"
    "indices_valid two_cluster_bundle
       [\<lparr>indices = [0], centroid = line_y 0\<rparr>, \<lparr>indices = [1], centroid = line_y 10\<rparr>]"
    by (simp_all add: two_cluster_bundle_def colors_assigned_def indices_valid_def upt_rec)
  have c1: "color one_cluster_bundle = Some (1, 0, 0)"
    "streamlines one_cluster_bundle = [line_y 0, line_y 10]"
    by (simp_all add: one_cluster_bundle_def)
  have c2: "streamlines two_cluster_bundle = [line_y 0, line_y 10]"
    by (simp add: two_cluster_bundle_def)
  show ?thesis
    using children_colors [OF one] children_colors [OF two] one two c1 c2
    by (simp add: upt_rec)
qed

subsection \<open>Moving the selection\<close>

lemma registry_ok_subset: "registry_ok s \<Longrightarrow> set (keys s) \<subseteq> dom (bundles s)"
  by (simp add: registry_ok_def keys_ok_def)

lemma select_step_frame:
  assumes "select_step step E s = Inr s'"
  shows "same_registry s s'"
proof -
  from assms obtain t where "select E t s = Inr s'"
    by (auto simp: select_step_def and_then_Inr_iff split: if_splits)
  then show ?thesis by (simp add: select_frame)
qed

subsection \<open>Accepting and rejecting\<close>

lemma registry_ok_memory [simp]:
  "registry_ok (s\<lparr>undo_memory := m\<rparr>) = registry_ok s"
  "registry_ok (s\<lparr>inliers := i\<rparr>) = registry_ok s"
  "registry_ok (s\<lparr>outliers := i\<rparr>) = registry_ok s"
  by (simp_all add: registry_ok_def keys_ok_def cong: option.case_cong)

lemma remove_bundle_Inr:
  assumes "remove_bundle name s = Inr s'"
  shows "s' = s\<lparr>keys := sort (remove1 name (keys s)), bundles := (bundles s)(name := None)\<rparr>
         \<and> name \<in> set (keys s) \<and> scene s \<and> bundles s name \<noteq> None"
  using assms by (auto simp: remove_bundle_def split: if_splits option.splits)

lemma remove_bundle_registry_ok:
  assumes ok: "registry_ok s" and rm: "remove_bundle name s = Inr s'"
  shows "registry_ok s'"
proof -
  from remove_bundle_Inr [OF rm]
  have f: "heap s' = heap s" "keys s' = sort (remove1 name (keys s))"
    "bundles s' = (bundles s)(name := None)" "scene s' = scene s"
    "last_bundles_visibility_state s' = last_bundles_visibility_state s"
    by simp_all
  from ok have kok: "keys_ok s" by (simp add: registry_ok_def)
  from remove_bundle_keys_ok [OF kok rm] have k': "keys_ok s'" .
  from kok have d: "distinct (keys s)" by (simp add: keys_ok_def)
  have "case bundles s' k of None \<Rightarrow> False | Some r \<Rightarrow> ren (heap s' r)"
    if "k \<in> set (keys s')" for k
  proof -
    from that d have "k \<in> set (keys s)" "k \<noteq> name" by (auto simp: f)
    with ok show ?thesis by (auto simp: f registry_ok_def list_all_iff split: option.splits)
  qed
  then have "list_all (\<lambda>k. case bundles s' k of None \<Rightarrow> False | Some r \<Rightarrow> ren (heap s' r)) (keys s')"
    by (simp add: list_all_iff)
  with ok k' f show ?thesis by (simp add: registry_ok_def)
qed

text \<open>What an accept or reject action does when it returns.\<close>

lemma curate_Inr:
  assumes "curate E a s = Inr s'"
  shows "\<exists>name r s2.
           selected_bundle s = Some name \<and> bundles s name = Some r \<and>
           same_registry
             (s\<lparr>undo_memory := deque_append (undo_maxlen s) (undo_memory s) (record_of a s),
                inliers := (if a = Accept then inliers s @ streamlines (heap s r) else inliers s),
                outliers := (if a = Reject then outliers s @ streamlines (heap s r) else outliers s)\<rparr>)
             s2 \<and>
           s' = s2\<lparr>keys := sort (remove1 name (keys s2)), bundles := (bundles s2)(name := None)\<rparr>"
proof (cases a)
  case Accept
  with assms obtain name r where n: "selected_bundle s = Some name" "bundles s name = Some r"
    by (auto simp: like_bundle_def split: option.splits)
  let ?s1 = "s\<lparr>undo_memory := deque_append (undo_maxlen s) (undo_memory s)
                                         \<lparr>action = ''like'', bundle_name = name, bundle_ref = r\<rparr>,
                       inliers := inliers s @ streamlines (heap s r)\<rparr>"
  from assms Accept n obtain s2 where s2: "select_next E ?s1 = Inr s2"
    and rm: "remove_bundle name s2 = Inr s'"
    by (auto simp: like_bundle_def and_then_Inr_iff)
  from s2 have "same_registry ?s1 s2" by (simp add: select_next_def select_step_frame)
  with remove_bundle_Inr [OF rm] n Accept show ?thesis
    by (auto simp: record_of_def)
next
  case Reject
  with assms obtain name r where n: "selected_bundle s = Some name" "bundles s name = Some r"
    by (auto simp: dislike_bundle_def split: option.splits)
  let ?s1 = "s\<lparr>undo_memory := deque_append (undo_maxlen s) (undo_memory s)
                                         \<lparr>action = ''dislike'', bundle_name = name, bundle_ref = r\<rparr>,
                       outliers := outliers s @ streamlines (heap s r)\<rparr>"
  from assms Reject n obtain s2 where s2: "select_next E ?s1 = Inr s2"
    and rm: "remove_bundle name s2 = Inr s'"
    by (auto simp: dislike_bundle_def and_then_Inr_iff)
  from s2 have "same_registry ?s1 s2" by (simp add: select_next_def select_step_frame)
  with remove_bundle_Inr [OF rm] n Reject show ?thesis
    by (auto simp: record_of_def)
qed

lemma curate_memory:
  assumes "curate E a s = Inr s'"
  shows "undo_memory s' = deque_append (undo_maxlen s) (undo_memory s) (record_of a s) \<and>
         undo_maxlen s' = undo_maxlen s"
  using curate_Inr [OF assms] by (auto simp: same_registry_def)

subsection \<open>The order of selection\<close>

lemma lex_sorted_wrt:
  fixes f :: "'a \<Rightarrow> 'b::linorder" and g :: "'a \<Rightarrow> 'c::linorder"
  assumes "sorted (map f xs)" "\<And>k. sorted (map g (filter (\<lambda>x. f x = k) xs))"
  shows "sorted_wrt (\<lambda>a b. f a < f b \<or> (f a = f b \<and> g a \<le> g b)) xs"
  using assms
proof (induction xs)
  case Nil
  then show ?case by simp
next
  case (Cons x xs)
  have tail: "sorted (map g (filter (\<lambda>y. f y = k) xs))" for k
    using Cons.prems(2) [of k] by (simp split: if_splits)
  have "f x < f y \<or> (f x = f y \<and> g x \<le> g y)" if y: "y \<in> set xs" for y
  proof (cases "f x = f y")
    case True
    from Cons.prems(2) [of "f x"] True y show ?thesis by auto
  next
    case False
    with Cons.prems(1) y show ?thesis by fastforce
  qed
  moreover have "sorted_wrt (\<lambda>a b. f a < f b \<or> (f a = f b \<and> g a \<le> g b)) xs"
    using Cons.IH Cons.prems(1) tail by simp
  ultimately show ?case by simp
qed

lemma lexsort_sorted:
  "sorted_wrt (\<lambda>i j. sz ! i < sz ! j \<or> (sz ! i = sz ! j \<and> ks ! i \<le> ks ! j)) (lexsort ks sz)"
  unfolding lexsort_def
proof (rule lex_sorted_wrt)
  show "sorted (map (\<lambda>i. sz ! i) (sort_key (\<lambda>i. sz ! i) (sort_key (\<lambda>i. ks ! i) [0..<length ks])))"
    by simp
next
  fix k
  have "filter (\<lambda>x. sz ! x = k) (sort_key (\<lambda>i. sz ! i) (sort_key (\<lambda>i. ks ! i) [0..<length ks]))
          = filter (\<lambda>x. sz ! x = k) (sort_key (\<lambda>i. ks ! i) [0..<length ks])"
    by (rule sort_key_stable)
  moreover have "sorted (map (\<lambda>i. ks ! i) (filter (\<lambda>x. sz ! x = k) (sort_key (\<lambda>i. ks ! i) [0..<length ks])))"
    by (rule sorted_filter) simp
  ultimately show "sorted (map (\<lambda>i. ks ! i)
           (filter (\<lambda>x. sz ! x = k) (sort_key (\<lambda>i. sz ! i) (sort_key (\<lambda>i. ks ! i) [0..<length ks]))))"
    by simp
qed

lemma lexsort_nth_lt: "i < length ks \<Longrightarrow> lexsort ks sz ! i < length ks"
  using nth_mem [of i "lexsort ks sz"] by simp

lemma selection_order_length [simp]: "length (selection_order s) = length (keys s)"
  by (simp add: selection_order_def)

lemma selection_order_set:
  "set (selection_order s) = set (keys s)"
proof -
  have "set (selection_order s) = (\<lambda>i. keys s ! i) ` {0..<length (keys s)}"
    by (simp add: selection_order_def)
  also have "\<dots> = set (keys s)"
    by (auto simp: set_conv_nth)
  finally show ?thesis .
qed

lemma selection_order_distinct:
  "distinct (keys s) \<Longrightarrow> distinct (selection_order s)"
  unfolding selection_order_def
  by (auto simp: distinct_map inj_on_def nth_eq_iff_index_eq)

lemma selection_order_same:
  assumes "same_registry s s'"
  shows "selection_order s' = selection_order s"
proof -
  from assms have "bundle_size s' = bundle_size s"
    by (auto simp: bundle_size_def same_registry_def fun_eq_iff split: option.splits)
  with assms show ?thesis by (simp add: selection_order_def same_registry_def)
qed

text \<open>Descending size, and descending key among bundles of equal size.\<close>

lemma selection_order_sorted:
  assumes "distinct (keys s)"
  shows "sorted_wrt (\<lambda>a b. bundle_size s b < bundle_size s a \<or>
                           (bundle_size s a = bundle_size s b \<and> b < a)) (selection_order s)"
proof -
  let ?ks = "keys s" and ?sz = "map (bundle_size s) (keys s)"
  let ?P = "\<lambda>i j. ?sz ! i < ?sz ! j \<or> (?sz ! i = ?sz ! j \<and> ?ks ! i \<le> ?ks ! j)"
  let ?Q = "\<lambda>i j. bundle_size s (?ks ! i) < bundle_size s (?ks ! j) \<or>
                  (bundle_size s (?ks ! j) = bundle_size s (?ks ! i) \<and> ?ks ! i < ?ks ! j)"
  let ?L = "lexsort ?ks ?sz"
  have "?Q (?L ! a) (?L ! b)" if ab: "a < b" "b < length ?L" for a b
  proof -
    from lexsort_sorted [of ?sz ?ks] ab have P: "?P (?L ! a) (?L ! b)"
      by (simp add: sorted_wrt_iff_nth_less)
    from ab have ne: "?L ! a \<noteq> ?L ! b"
      by (simp add: nth_eq_iff_index_eq)
    from ab have lt: "?L ! a < length ?ks" "?L ! b < length ?ks"
      by (simp_all add: lexsort_nth_lt)
    with ne assms have "?ks ! (?L ! a) \<noteq> ?ks ! (?L ! b)" by (simp add: nth_eq_iff_index_eq)
    with P lt show ?thesis by auto
  qed
  then have "sorted_wrt ?Q ?L"
    by (simp add: sorted_wrt_iff_nth_less)
  then have "sorted_wrt (\<lambda>i j. ?Q j i) (rev (lexsort ?ks ?sz))"
    by (simp add: sorted_wrt_rev)
  then show ?thesis by (simp add: selection_order_def sorted_wrt_map)
qed


subsection \<open>One step and a full round\<close>

lemma select_step_position:
  assumes ok: "registry_ok s" and c: "c < length (keys s)"
    and sel: "selected_bundle s = Some (selection_order s ! c)"
    and step: "step c (length (keys s)) < length (keys s)"
  shows "\<exists>s'. select_step step E s = Inr s' \<and> same_registry s s' \<and>
           selected_bundle s' = Some (selection_order s ! step c (length (keys s)))"
proof -
  let ?ind = "rev (lexsort (keys s) (map (bundle_size s) (keys s)))"
  let ?n = "length (keys s)"
  from ok have d: "distinct (keys s)" by (simp add: registry_ok_def keys_ok_def)
  have sz: "bundle_sizes s = Inr (map (bundle_size s) (keys s))"
    using ok by (simp add: bundle_sizes_ok registry_ok_subset)
  have len: "length ?ind = ?n" by simp
  have lt: "?ind ! i < ?n" if "i < ?n" for i
    using nth_mem [of i ?ind] that by simp
  have ord: "selection_order s ! i = keys s ! (?ind ! i)" if "i < ?n" for i
    using that by (simp add: selection_order_def)
  from sel c have sel': "selected_bundle s = Some (keys s ! (?ind ! c))" by (simp add: ord)
  from d lt [OF c] have j: "index_of (keys s ! (?ind ! c)) (keys s) = Some (?ind ! c)"
    by (rule index_of_nth)
  have "distinct ?ind" by simp
  from index_of_nth [OF this] c have cc: "index_of (?ind ! c) ?ind = Some c" by simp
  let ?k' = "keys s ! (?ind ! step c ?n)"
  from lt [OF step] have "?k' \<in> set (keys s)" by simp
  with ok obtain r where r: "bundles s ?k' = Some r"
    by (auto simp: registry_ok_def keys_ok_def)
  from select_succeeds [OF ok r] obtain s' where s': "select E (Some ?k') s = Inr s'" by blast
  have "select_step step E s = Inr s'"
    using sz sel' j cc step s' by (simp add: select_step_def)
  with select_frame [OF s'] step show ?thesis by (auto simp: ord)
qed

lemma select_next_position:
  assumes "registry_ok s" "c < length (keys s)" "selected_bundle s = Some (selection_order s ! c)"
  shows "\<exists>s'. select_next E s = Inr s' \<and> same_registry s s' \<and>
           selected_bundle s' = Some (selection_order s ! ((c + 1) mod length (keys s)))"
proof -
  from assms(2) have "(c + 1) mod length (keys s) < length (keys s)"
    by (intro mod_less_divisor) auto
  from select_step_position [OF assms, of "\<lambda>cpt n. (cpt + 1) mod n" E, OF this]
  show ?thesis by (simp add: select_next_def)
qed

lemma repeated_select_next:
  assumes "registry_ok s" "c < length (keys s)" "selected_bundle s = Some (selection_order s ! c)"
  shows "\<exists>s'. repeated m (select_next E) s = Inr s' \<and> same_registry s s' \<and>
           selected_bundle s' = Some (selection_order s ! ((c + m) mod length (keys s)))"
  using assms
proof (induction m arbitrary: s c)
  case 0
  then show ?case by simp
next
  case (Suc m)
  let ?n = "length (keys s)"
  from select_next_position [OF Suc.prems, of E] obtain s1 where
    s1: "select_next E s = Inr s1" "same_registry s s1"
      "selected_bundle s1 = Some (selection_order s ! ((c + 1) mod ?n))"
    by blast
  from s1(2) have eq: "keys s1 = keys s" "selection_order s1 = selection_order s"
    by (simp_all add: selection_order_same) (simp add: same_registry_def)
  from Suc.prems(1) s1(2) have ok1: "registry_ok s1" by (rule registry_ok_same)
  from Suc.prems(2) have "(c + 1) mod ?n < ?n" by (intro mod_less_divisor) auto
  then have c1: "(c + 1) mod ?n < length (keys s1)" by (simp add: eq)
  from Suc.IH [OF ok1 c1] s1(3) obtain s' where
    s': "repeated m (select_next E) s1 = Inr s'" "same_registry s1 s'"
      "selected_bundle s' = Some (selection_order s ! (((c + 1) mod ?n + m) mod ?n))"
    by (auto simp: eq)
  have "((c + 1) mod ?n + m) mod ?n = (c + Suc m) mod ?n"
    by (simp add: mod_add_left_eq)
  with s1 s' show ?case by (auto intro: same_registry_trans)
qed

text \<open>
  Claim C9. In a well-formed registry with a registered bundle selected, calling
  \<open>select_next\<close> as many times as there are keys returns normally, leaves keys and bundles
  as they were and selects the bundle selected at the start. Each call moves the selection
  one place on, cyclically, in \<open>selection_order\<close>, which lists every key once, bundles with
  more streamlines first and, among bundles of equal size, the greater key first.
\<close>

theorem select_next_cycles:
  assumes "registry_ok s" "selected_bundle s = Some k" "k \<in> set (keys s)"
  shows "(\<exists>s'. repeated (length (keys s)) (select_next E) s = Inr s' \<and>
               selected_bundle s' = Some k \<and> keys s' = keys s \<and> bundles s' = bundles s) \<and>
         (\<forall>c < length (keys s). k = selection_order s ! c \<longrightarrow>
            (\<exists>s1. select_next E s = Inr s1 \<and>
               selected_bundle s1 = Some (selection_order s ! ((c + 1) mod length (keys s))))) \<and>
         set (selection_order s) = set (keys s) \<and> distinct (selection_order s) \<and>
         sorted_wrt (\<lambda>a b. bundle_size s b < bundle_size s a \<or>
                           (bundle_size s a = bundle_size s b \<and> b < a)) (selection_order s)"
proof -
  from assms(1) have d: "distinct (keys s)" by (simp add: registry_ok_def keys_ok_def)
  from assms(3) have "k \<in> set (selection_order s)" by (simp add: selection_order_set)
  then obtain c where c: "c < length (keys s)" "selection_order s ! c = k"
    by (auto simp: in_set_conv_nth)
  with assms(2) have sel: "selected_bundle s = Some (selection_order s ! c)" by simp
  from repeated_select_next [OF assms(1) c(1) sel, of "length (keys s)" E] c
  have round: "\<exists>s'. repeated (length (keys s)) (select_next E) s = Inr s' \<and>
               selected_bundle s' = Some k \<and> keys s' = keys s \<and> bundles s' = bundles s"
    by (auto simp: same_registry_def)
  have one: "\<forall>c < length (keys s). k = selection_order s ! c \<longrightarrow>
            (\<exists>s1. select_next E s = Inr s1 \<and>
               selected_bundle s1 = Some (selection_order s ! ((c + 1) mod length (keys s))))"
  proof (intro allI impI)
    fix c' assume c': "c' < length (keys s)" "k = selection_order s ! c'"
    with assms(2) have "selected_bundle s = Some (selection_order s ! c')" by simp
    from select_next_position [OF assms(1) c'(1) this, of E]
    show "\<exists>s1. select_next E s = Inr s1 \<and>
               selected_bundle s1 = Some (selection_order s ! ((c' + 1) mod length (keys s)))"
      by blast
  qed
  from round one selection_order_set [of s] selection_order_distinct [OF d]
    selection_order_sorted [OF d]
  show ?thesis by blast
qed

subsection \<open>Accept, reject and undo on a well-formed registry\<close>

lemma curate_unfold:
  assumes "selected_bundle s = Some name" "bundles s name = Some r"
  shows "curate E a s =
           and_then
             (select_next E
                (s\<lparr>undo_memory := deque_append (undo_maxlen s) (undo_memory s) (record_of a s),
                   inliers := (if a = Accept then inliers s @ streamlines (heap s r) else inliers s),
                   outliers := (if a = Reject then outliers s @ streamlines (heap s r) else outliers s)\<rparr>))
             (remove_bundle name)"
proof (cases a)
  case Accept
  have "s\<lparr>undo_memory := m, inliers := i, outliers := outliers s\<rparr> = s\<lparr>undo_memory := m, inliers := i\<rparr>"
    for m i by simp
  with Accept assms show ?thesis by (simp add: like_bundle_def record_of_def)
next
  case Reject
  have "s\<lparr>undo_memory := m, inliers := inliers s, outliers := i\<rparr> = s\<lparr>undo_memory := m, outliers := i\<rparr>"
    for m i by simp
  with Reject assms show ?thesis by (simp add: dislike_bundle_def record_of_def)
qed

lemma bundle_size_upd [simp]:
  "bundle_size (s\<lparr>undo_memory := m\<rparr>) = bundle_size s"
  "bundle_size (s\<lparr>inliers := i\<rparr>) = bundle_size s"
  "bundle_size (s\<lparr>outliers := i\<rparr>) = bundle_size s"
  by (simp_all add: fun_eq_iff bundle_size_def cong: option.case_cong)

lemma selection_order_upd [simp]:
  "selection_order (s\<lparr>undo_memory := m\<rparr>) = selection_order s"
  "selection_order (s\<lparr>inliers := i\<rparr>) = selection_order s"
  "selection_order (s\<lparr>outliers := i\<rparr>) = selection_order s"
  by (simp_all add: selection_order_def)

lemma curate_succeeds:
  assumes ok: "registry_ok s" and sel: "selected_bundle s = Some name"
    and mem: "name \<in> set (keys s)"
  shows "\<exists>s'. curate E a s = Inr s' \<and> registry_ok s' \<and>
           (2 \<le> length (keys s) \<longrightarrow> (\<exists>k'. selected_bundle s' = Some k' \<and> k' \<in> set (keys s')))"
proof -
  from ok mem obtain r where r: "bundles s name = Some r"
    by (auto simp: registry_ok_def keys_ok_def)
  let ?s1 = "s\<lparr>undo_memory := deque_append (undo_maxlen s) (undo_memory s) (record_of a s),
                   inliers := (if a = Accept then inliers s @ streamlines (heap s r) else inliers s),
                   outliers := (if a = Reject then outliers s @ streamlines (heap s r) else outliers s)\<rparr>"
  let ?n = "length (keys s)"
  from ok have ok1: "registry_ok ?s1" by simp
  from ok have d: "distinct (keys s)" by (simp add: registry_ok_def keys_ok_def)
  have ord1: "selection_order ?s1 = selection_order s"
    by simp
  from mem have "name \<in> set (selection_order s)" by (simp add: selection_order_set)
  then obtain c where c: "c < ?n" "selection_order s ! c = name"
    by (auto simp: in_set_conv_nth)
  from c sel have sel1: "selected_bundle ?s1 = Some (selection_order ?s1 ! c)" by (simp add: ord1)
  from c have c1: "c < length (keys ?s1)" by simp
  from select_next_position [OF ok1 c1 sel1, of E] obtain s2 where
    s2: "select_next E ?s1 = Inr s2" "same_registry ?s1 s2"
      "selected_bundle s2 = Some (selection_order s ! ((c + 1) mod ?n))"
    by (auto simp: ord1)
  from ok1 s2(2) have ok2: "registry_ok s2" by (rule registry_ok_same)
  from s2(2) have f2: "keys s2 = keys s" "bundles s2 = bundles s" "scene s2 = scene s"
    by (simp_all add: same_registry_def)
  from ok have "scene s" by (simp add: registry_ok_def)
  with mem r f2 obtain s3 where s3: "remove_bundle name s2 = Inr s3"
    by (simp add: remove_bundle_def)
  from remove_bundle_registry_ok [OF ok2 s3] have ok3: "registry_ok s3" .
  from remove_bundle_Inr [OF s3] have f3: "keys s3 = sort (remove1 name (keys s))"
    "selected_bundle s3 = selected_bundle s2" by (simp_all add: f2)
  have cur: "curate E a s = Inr s3"
    using s2(1) s3 by (simp add: curate_unfold [OF sel r])
  have "\<exists>k'. selected_bundle s3 = Some k' \<and> k' \<in> set (keys s3)" if two: "2 \<le> ?n"
  proof -
    let ?c' = "(c + 1) mod ?n"
    from c(1) have c': "?c' < ?n" by (intro mod_less_divisor) auto
    have "?c' \<noteq> c"
    proof (cases "c + 1 < ?n")
      case True
      then show ?thesis by simp
    next
      case False
      with c(1) have "c + 1 = ?n" by simp
      then have "?c' = 0" by (metis mod_self)
      with two \<open>c + 1 = ?n\<close> show ?thesis by simp
    qed
    with c c' selection_order_distinct [OF d] have "selection_order s ! ?c' \<noteq> name"
      by (auto simp: nth_eq_iff_index_eq)
    moreover from c' have "selection_order s ! ?c' \<in> set (keys s)"
      using nth_mem [of ?c' "selection_order s"] by (simp add: selection_order_set)
    ultimately have "selection_order s ! ?c' \<in> set (keys s3)" using d by (simp add: f3)
    with s2(3) f3 show ?thesis by simp
  qed
  with cur ok3 show ?thesis by blast
qed

lemma deque_append_last:
  assumes "maxlen \<noteq> Some 0"
  shows "deque_append maxlen d x \<noteq> [] \<and> last (deque_append maxlen d x) = x"
proof (cases maxlen)
  case None
  then show ?thesis by (simp add: deque_append_def)
next
  case (Some m)
  with assms have m: "0 < m" by simp
  show ?thesis
  proof (cases d)
    case Nil
    with Some m show ?thesis by (simp add: deque_append_def)
  next
    case (Cons y ys)
    with Some show ?thesis by (simp add: deque_append_def)
  qed
qed


lemma add_bundle_registry_ok:
  assumes ok: "registry_ok s" and fresh: "name \<notin> dom (bundles s)"
    and add: "add_bundle name r s = Inr s'"
  shows "registry_ok s'"
proof -
  from ok have sc: "scene s" and kok: "keys_ok s" by (simp_all add: registry_ok_def)
  from add sc have f: "keys s' = sort (keys s @ [name])"
    "heap s' = (heap s)(r := add_to_renderer (heap s r))"
    "bundles s' = (bundles s)(name \<mapsto> r)" "scene s' = scene s"
    "last_bundles_visibility_state s' = last_bundles_visibility_state s"
    by (auto simp: add_bundle_scene)
  from add_bundle_keys_ok [OF kok fresh add] have k': "keys_ok s'" .
  have "case bundles s' k of None \<Rightarrow> False | Some q \<Rightarrow> ren (heap s' q)"
    if "k \<in> set (keys s')" for k
  proof (cases "k = name")
    case True
    then show ?thesis by (simp add: f add_to_renderer_def)
  next
    case False
    with that have "k \<in> set (keys s)" by (simp add: f)
    with ok False show ?thesis
      by (auto simp: f registry_ok_def list_all_iff add_to_renderer_def split: option.splits)
  qed
  then have "list_all (\<lambda>k. case bundles s' k of None \<Rightarrow> False | Some q \<Rightarrow> ren (heap s' q)) (keys s')"
    by (simp add: list_all_iff)
  with ok k' f show ?thesis by (simp add: registry_ok_def)
qed

lemma undo_restores:
  assumes ok: "registry_ok s" and ne: "undo_memory s \<noteq> []"
    and m: "last (undo_memory s) = \<lparr>action = act, bundle_name = name, bundle_ref = r\<rparr>"
    and act: "act = ''like'' \<or> act = ''dislike''"
    and fresh: "name \<notin> dom (bundles s)"
  shows "\<exists>s'. undo E s = Inr s' \<and> registry_ok s' \<and>
           bundles s' = (bundles s)(name \<mapsto> r) \<and> keys s' = sort (keys s @ [name]) \<and>
           inliers s' = (if act = ''like''
                         then slice_to_minus (length (streamlines (heap s r))) (inliers s)
                         else inliers s) \<and>
           outliers s' = (if act = ''like'' then outliers s
                          else slice_to_minus (length (streamlines (heap s r))) (outliers s)) \<and>
           selected_bundle s' = Some name \<and>
           undo_memory s' = butlast (undo_memory s) \<and> undo_maxlen s' = undo_maxlen s \<and>
           (\<forall>q. streamlines (heap s' q) = streamlines (heap s q))"
proof -
  let ?n = "length (streamlines (heap s r))"
  let ?s1 = "s\<lparr>undo_memory := butlast (undo_memory s),
                inliers := (if act = ''like'' then slice_to_minus ?n (inliers s) else inliers s),
                outliers := (if act = ''like'' then outliers s else slice_to_minus ?n (outliers s))\<rparr>"
  from ok have ok1: "registry_ok ?s1" by simp
  then have sc: "scene ?s1" by (simp add: registry_ok_def)
  from add_bundle_scene [OF sc, of name r] obtain s4 where
    s4: "add_bundle name r ?s1 = Inr s4"
    and f4: "keys s4 = sort (keys s @ [name])" "bundles s4 = (bundles s)(name \<mapsto> r)"
      "heap s4 = (heap s)(r := add_to_renderer (heap s r))"
      "inliers s4 = inliers ?s1" "outliers s4 = outliers ?s1"
      "undo_memory s4 = butlast (undo_memory s)" "undo_maxlen s4 = undo_maxlen s"
    by simp
  from fresh have "name \<notin> dom (bundles ?s1)" by simp
  from add_bundle_registry_ok [OF ok1 this s4] have ok4: "registry_ok s4" .
  have r4: "bundles s4 name = Some r" by (simp add: f4)
  from select_succeeds [OF ok4 r4, of E] obtain s5 where s5: "select E (Some name) s4 = Inr s5"
    by blast
  from select_frame [OF s5] have fr: "same_registry s4 s5" "selected_bundle s5 = Some name"
    by simp_all
  from ok4 fr(1) have ok5: "registry_ok s5" by (rule registry_ok_same)
  have u: "undo E s = Inr s5"
  proof (cases "act = ''like''")
    case True
    have "s\<lparr>undo_memory := butlast (undo_memory s), inliers := i, outliers := outliers s\<rparr>
            = s\<lparr>undo_memory := butlast (undo_memory s), inliers := i\<rparr>" for i by simp
    with True ne m s4 s5 show ?thesis by (simp add: undo_def Let_def)
  next
    case False
    with act have dis: "act = ''dislike''" by simp
    have "s\<lparr>undo_memory := butlast (undo_memory s), inliers := inliers s, outliers := i\<rparr>
            = s\<lparr>undo_memory := butlast (undo_memory s), outliers := i\<rparr>" for i by simp
    with dis ne m s4 s5 show ?thesis by (simp add: undo_def Let_def)
  qed
  have st: "streamlines (heap s5 q) = streamlines (heap s q)" for q
    using fr(1) by (simp add: same_registry_def f4 add_to_renderer_def)
  from u ok5 fr f4 st show ?thesis
    by (simp add: same_registry_def)
qed

lemma sort_remove_insert:
  assumes "sorted ks" "distinct ks" "name \<in> set ks"
  shows "sort (sort (remove1 name ks) @ [name]) = ks"
proof (rule sorted_distinct_set_unique)
  show "sorted (sort (sort (remove1 name ks) @ [name]))" by simp
  show "distinct (sort (sort (remove1 name ks) @ [name]))" using assms by simp
  show "sorted ks" "distinct ks" by fact+
  show "set (sort (sort (remove1 name ks) @ [name])) = set ks" using assms by auto
qed

lemma slice_to_minus_append:
  "ys \<noteq> [] \<Longrightarrow> slice_to_minus (length ys) (xs @ ys) = xs"
  by (simp add: slice_to_minus_def)

text \<open>The slice \<^verbatim>\<open>xs[:-0]\<close> is empty: undoing the acceptance of an empty bundle clears the list.\<close>

lemma slice_to_minus_zero: "slice_to_minus 0 xs = []"
  by (simp add: slice_to_minus_def)

text \<open>
  Claim C1, amended. In a well-formed registry whose undo memory can hold at least one
  record, accepting the selected bundle, which has at least one streamline, and then
  undoing returns normally; the bundle map and the key list are again what they were, the
  bundle is registered under its name and selected, the inliers (so also their number) and
  the outliers are what they were, and no bundle object has changed its streamlines.
\<close>

theorem accept_then_undo:
  assumes ok: "registry_ok s" and sel: "selected_bundle s = Some name"
    and r: "bundles s name = Some r"
    and cap: "undo_maxlen s \<noteq> Some 0"
    and nonempty: "streamlines (heap s r) \<noteq> []"
  shows "\<exists>s1 s2. like_bundle E s = Inr s1 \<and> \<not> registered name s1 \<and>
           undo E s1 = Inr s2 \<and>
           bundles s2 = bundles s \<and> keys s2 = keys s \<and>
           length (inliers s2) = length (inliers s) \<and> inliers s2 = inliers s \<and>
           outliers s2 = outliers s \<and> selected_bundle s2 = Some name \<and>
           (\<forall>q. streamlines (heap s2 q) = streamlines (heap s q))"
proof -
  from ok r have mem: "name \<in> set (keys s)" by (auto simp: registry_ok_def keys_ok_def)
  from ok have kok: "sorted (keys s)" "distinct (keys s)" by (simp_all add: registry_ok_def keys_ok_def)
  from curate_succeeds [OF ok sel mem, of E Accept] obtain s1 where
    s1: "curate E Accept s = Inr s1" and ok1: "registry_ok s1" by blast
  from curate_Inr [OF s1] sel r obtain s' where
    fr: "same_registry
           (s\<lparr>undo_memory := deque_append (undo_maxlen s) (undo_memory s) (record_of Accept s),
              inliers := inliers s @ streamlines (heap s r), outliers := outliers s\<rparr>) s'"
    and s1_eq: "s1 = s'\<lparr>keys := sort (remove1 name (keys s')), bundles := (bundles s')(name := None)\<rparr>"
    by auto
  from fr s1_eq have f1: "keys s1 = sort (remove1 name (keys s))"
    "bundles s1 = (bundles s)(name := None)"
    "inliers s1 = inliers s @ streamlines (heap s r)" "outliers s1 = outliers s"
    "undo_memory s1 = deque_append (undo_maxlen s) (undo_memory s) (record_of Accept s)"
    and h1: "\<And>q. streamlines (heap s1 q) = streamlines (heap s q)"
    by (simp_all add: same_registry_def)
  from deque_append_last [OF cap, of "undo_memory s" "record_of Accept s"] f1(5)
  have ne: "undo_memory s1 \<noteq> []" and lst: "last (undo_memory s1) = record_of Accept s"
    by simp_all
  from sel r have rec: "record_of Accept s = \<lparr>action = ''like'', bundle_name = name, bundle_ref = r\<rparr>"
    by (simp add: record_of_def)
  have fresh: "name \<notin> dom (bundles s1)" by (simp add: f1)
  from undo_restores [OF ok1 ne, of "''like''" name r E] lst rec fresh obtain s2 where
    s2: "undo E s1 = Inr s2" "bundles s2 = (bundles s1)(name \<mapsto> r)"
      "keys s2 = sort (keys s1 @ [name])"
      "inliers s2 = slice_to_minus (length (streamlines (heap s1 r))) (inliers s1)"
      "outliers s2 = outliers s1" "selected_bundle s2 = Some name"
      "\<And>q. streamlines (heap s2 q) = streamlines (heap s1 q)"
    by auto
  have b: "bundles s2 = bundles s" using s2(2) f1(2) r by (auto simp: fun_eq_iff)
  have k: "keys s2 = keys s" using s2(3) f1(1) sort_remove_insert [OF kok mem] by simp
  have i: "inliers s2 = inliers s"
    using s2(4) f1(3) h1 [of r] nonempty by (simp add: slice_to_minus_append)
  from s1 fresh s2 b k i f1 h1 show ?thesis
    by (auto simp: registered_def)
qed

subsection \<open>The bounded undo memory\<close>







lemma example_fields:
  "selected_bundle (example_session m) = Some ''/1/''"
  "''/1/'' \<in> set (keys (example_session m))"
  "bundles (example_session m) ''/1/'' = Some 1"
  "undo_maxlen (example_session m) = m"
  "undo_memory (example_session m) = []"
  "streamlines (heap (example_session m) 1) = [line_y 1, line_y 2]"
  "inliers (example_session m) = [line_y 7]"
  "keys (example_session m) = [''/0/'', ''/1/'', ''/2/'']"
  by (simp_all add: example_session_def add_to_renderer_def)

text \<open>
  Claim C1, as stated: in every registry state, accepting a registered bundle and then
  undoing brings the bundle back. It fails for a session whose undo memory has capacity 0:
  the deque drops the record at once, \<open>undo\<close> finds the memory empty and returns, and the
  accepted bundle stays out of the registry.
\<close>

theorem accept_undo_capacity_zero_counterexample:
  "registered ''/1/'' (example_session (Some 0)) \<and>
   selected_bundle (example_session (Some 0)) = Some ''/1/'' \<and>
   returns (and_then (like_bundle example_env (example_session (Some 0))) (undo example_env))
     (Not \<circ> registered ''/1/'')"
proof -
  let ?s = "example_session (Some 0)"
  from curate_succeeds [OF example_registry_ok example_fields(1,2), where E = example_env and a = Accept]
  obtain s1 where s1: "curate example_env Accept ?s = Inr s1" by blast
  from curate_memory [OF s1] have m: "undo_memory s1 = []"
    by (simp add: example_fields deque_append_def)
  from curate_Inr [OF s1] have "bundles s1 ''/1/'' = None"
    by (auto simp: example_fields same_registry_def)
  with m s1 have "returns (and_then (like_bundle example_env ?s) (undo example_env))
     (Not \<circ> registered ''/1/'')"
    by (simp add: returns_def undo_def registered_def)
  then show ?thesis by (simp add: registered_def example_fields)
qed

theorem accept_then_undo_witness:
  "registry_ok (example_session (Some 2)) \<and>
   selected_bundle (example_session (Some 2)) = Some ''/1/'' \<and>
   bundles (example_session (Some 2)) ''/1/'' = Some 1 \<and>
   undo_maxlen (example_session (Some 2)) \<noteq> Some 0 \<and>
   streamlines (heap (example_session (Some 2)) 1) \<noteq> [] \<and>
   (\<exists>s1 s2. like_bundle example_env (example_session (Some 2)) = Inr s1 \<and>
      \<not> registered ''/1/'' s1 \<and> undo example_env s1 = Inr s2 \<and>
      registered ''/1/'' s2 \<and> keys s2 = [''/0/'', ''/1/'', ''/2/''] \<and>
      length (inliers s2) = 1 \<and> selected_bundle s2 = Some ''/1/'')"
proof -
  let ?s = "example_session (Some 2)"
  have h: "undo_maxlen ?s \<noteq> Some 0" "streamlines (heap ?s 1) \<noteq> []"
    by (simp_all add: example_session_def add_to_renderer_def)
  from accept_then_undo [OF example_registry_ok example_fields(1,3) h, where E = example_env]
  obtain s1 s2 where "like_bundle example_env ?s = Inr s1" "\<not> registered ''/1/'' s1"
    "undo example_env s1 = Inr s2" "bundles s2 = bundles ?s" "keys s2 = keys ?s"
    "length (inliers s2) = length (inliers ?s)" "selected_bundle s2 = Some ''/1/''"
    by blast
  then have "\<exists>s1 s2. like_bundle example_env ?s = Inr s1 \<and>
      \<not> registered ''/1/'' s1 \<and> undo example_env s1 = Inr s2 \<and>
      registered ''/1/'' s2 \<and> keys s2 = [''/0/'', ''/1/'', ''/2/''] \<and>
      length (inliers s2) = 1 \<and> selected_bundle s2 = Some ''/1/''"
    by (auto simp: example_fields registered_def)
  with example_registry_ok [of "Some 2"] h show ?thesis by (simp add: example_fields)
qed

lemma example_selection_order:
  "selection_order (example_session m) = [''/1/'', ''/2/'', ''/0/'']"
  by (simp add: selection_order_def lexsort_def bundle_size_def example_session_def
      add_to_renderer_def upt_rec less_eq_char_def)

theorem select_next_cycles_witness:
  "registry_ok (example_session (Some 2)) \<and>
   selected_bundle (example_session (Some 2)) = Some ''/1/'' \<and>
   ''/1/'' \<in> set (keys (example_session (Some 2))) \<and>
   (\<exists>s'. repeated (length (keys (example_session (Some 2)))) (select_next example_env)
            (example_session (Some 2)) = Inr s' \<and>
         selected_bundle s' = Some ''/1/'') \<and>
   selection_order (example_session (Some 2)) = [''/1/'', ''/2/'', ''/0/''] \<and>
   (\<exists>s1. select_next example_env (example_session (Some 2)) = Inr s1 \<and>
         selected_bundle s1 = Some ''/2/'')"
proof -
  let ?s = "example_session (Some 2)"
  note c = select_next_cycles [OF example_registry_ok example_fields(1,2), where E = example_env
      and m1 = "Some 2"]
  from c have round: "\<exists>s'. repeated (length (keys ?s)) (select_next example_env) ?s = Inr s' \<and>
         selected_bundle s' = Some ''/1/''" by blast
  from c have step: "\<And>c. c < length (keys ?s) \<Longrightarrow> ''/1/'' = selection_order ?s ! c \<Longrightarrow>
            \<exists>s1. select_next example_env ?s = Inr s1 \<and>
               selected_bundle s1 = Some (selection_order ?s ! ((c + 1) mod length (keys ?s)))"
    by blast
  have "0 < length (keys ?s)" "''/1/'' = selection_order ?s ! 0"
    by (simp_all add: example_fields example_selection_order)
  from step [OF this]
  have one: "\<exists>s1. select_next example_env ?s = Inr s1 \<and> selected_bundle s1 = Some ''/2/''"
    by (simp add: example_selection_order example_fields)
  from round one example_registry_ok [of "Some 2"] show ?thesis
    by (simp add: example_fields example_selection_order)
qed


section \<open>Properties of the clustering engine\<close>

subsection \<open>One pass at infinity\<close>

lemma assignment_step_inf_single:
  "assignment_step m np_inf [c] (i, s) = [join_cluster c i (feature m s)]"
  by (simp add: assignment_step_def close_enough_def)

lemma upt_shift: "[n..<n + Suc k] = n # [Suc n..<Suc n + k]"
  by (subst upt_rec) simp

lemma foldl_inf_single:
  "\<exists>c'. foldl (assignment_step m np_inf) [c] (enumerate n xs) = [c'] \<and>
         indices c' = indices c @ [n..<n + length xs]"
proof (induction xs arbitrary: c n)
  case Nil
  then show ?case by simp
next
  case (Cons x xs)
  let ?j = "join_cluster c n (feature m x)"
  from Cons.IH [of ?j "Suc n"] obtain c' where
    c': "foldl (assignment_step m np_inf) [?j] (enumerate (Suc n) xs) = [c']"
    "indices c' = indices ?j @ [Suc n..<Suc n + length xs]"
    by blast
  have "foldl (assignment_step m np_inf) [c] (enumerate n (x # xs)) = [c']"
    using c'(1) by (simp add: assignment_step_inf_single)
  moreover have "indices ?j = indices c @ [n]" by (simp add: join_cluster_def)
  with c'(2) have "indices c' = indices c @ n # [Suc n..<Suc n + length xs]" by simp
  then have "indices c' = indices c @ [n..<n + length (x # xs)]"
    using upt_shift [of n "length xs"] by simp
  ultimately show ?case by blast
qed

lemma QuickBundles_cluster_Nil [simp]: "QuickBundles_cluster m t [] = []"
  by (simp add: QuickBundles_cluster_def)

lemma QuickBundles_cluster_inf:
  assumes "xs \<noteq> []"
  shows "\<exists>c. QuickBundles_cluster m np_inf xs = [c] \<and> indices c = [0..<length xs]"
proof -
  from assms obtain x ys where xs: "xs = x # ys" by (cases xs) auto
  let ?c0 = "\<lparr>indices = [0], centroid = feature m x\<rparr>"
  from foldl_inf_single [of m ?c0 "Suc 0" ys]
  obtain c' where c': "foldl (assignment_step m np_inf) [?c0] (enumerate (Suc 0) ys) = [c']"
    "indices c' = indices ?c0 @ [Suc 0..<Suc 0 + length ys]"
    by blast
  have "QuickBundles_cluster m np_inf xs = [c']"
    using c'(1) by (simp add: xs QuickBundles_cluster_def assignment_step_def)
  moreover from c'(2) have "indices c' = 0 # [Suc 0..<Suc 0 + length ys]" by simp
  then have "indices c' = [0..<length xs]"
    using upt_shift [of 0 "length ys"] by (simp add: xs)
  ultimately show ?thesis by blast
qed

text \<open>
  Claim C3, as stated: for every bundle \<open>preview\<close> at infinity returns 1. It fails for a
  bundle that has not been added to a renderer yet, such as the bundle of four streamlines
  as the constructor returns it: \<open>preview\<close> clusters and then calls \<open>update\<close>, which
  dereferences \<^verbatim>\<open>self.ren\<close>, still \<^verbatim>\<open>None\<close>, and raises \<^verbatim>\<open>AttributeError\<close>.
\<close>

theorem preview_without_renderer_counterexample:
  "and_then (Bundle_init example_env four_lines None (Some np_inf) None)
     (preview example_env np_inf) = Inl AttributeError"
  by (simp add: four_lines_def preview_def update_def)

text \<open>
  Claim C3, amended. With the clustering engine of the specification, for every bundle a
  program can hold: if it has been added to a renderer, \<open>preview\<close> at infinity returns 1,
  the bundle then holds a single cluster, and that cluster holds the indices of all the
  streamlines of the bundle, which are the streamlines it had; if it has not been added to
  a renderer, \<open>preview\<close> at infinity raises \<^verbatim>\<open>AttributeError\<close>.
\<close>

theorem preview_inf_one_cluster:
  assumes "qb_cluster E = QuickBundles_cluster m" "built E b"
  shows "(ren b \<longrightarrow>
            (\<exists>b' c. preview E np_inf b = Inr (b', 1) \<and> clusters b' = Some [c] \<and>
               indices c = [0..<length (streamlines b)] \<and> streamlines b' = streamlines b)) \<and>
         (\<not> ren b \<longrightarrow> preview E np_inf b = Inl AttributeError)"
proof -
  from built_invariant [OF assms(2)] have ne: "streamlines b \<noteq> []" by simp
  from QuickBundles_cluster_inf [OF ne, of m] obtain c where
    c: "QuickBundles_cluster m np_inf (streamlines b) = [c]" "indices c = [0..<length (streamlines b)]"
    by blast
  with assms(1) have "ren b \<longrightarrow>
            (\<exists>b' c. preview E np_inf b = Inr (b', 1) \<and> clusters b' = Some [c] \<and>
               indices c = [0..<length (streamlines b)] \<and> streamlines b' = streamlines b)"
    by (simp add: preview_attached)
  moreover have "\<not> ren b \<longrightarrow> preview E np_inf b = Inl AttributeError"
    by (simp add: preview_def update_def)
  ultimately show ?thesis by blast
qed

subsection \<open>The metric on straight level streamlines\<close>

lemma dist3_level: "dist3 (a, y, 0) (a, y', 0) = \<bar>y - y'\<bar>"
  by (simp add: dist3_def)

lemma arc_length_line_y: "arc_length (line_y y) = 1"
  by (simp add: line_y_def dist3_def)

lemma point_at_line_y: "a \<le> 1 \<Longrightarrow> point_at (line_y y) a = (a, y, 0)"
  by (simp add: line_y_def dist3_def add_point_def scale_point_def algebra_simps)

lemma resample_line_y: "resample 30 (line_y y) = level y"
proof -
  have "point_at (line_y y) (arc_length (line_y y) * real i / real (30 - 1)) = (real i / 29, y, 0)"
    if "i \<in> set [0..<30]" for i
  proof -
    from that have "real i / 29 \<le> 1" by simp
    then show ?thesis by (simp add: arc_length_line_y point_at_line_y)
  qed
  then show ?thesis unfolding resample_def level_def by (intro map_cong refl) simp
qed

lemma feature_line_y [simp]: "feature metric (line_y y) = level y"
  by (simp add: metric_def resample_line_y)

lemma dist_level [simp]: "dist metric (level y) (level y') = \<bar>y - y'\<bar>"
proof -
  have "zip (level y) (level y') = map (\<lambda>i. ((real i / 29, y, 0), (real i / 29, y', 0))) [0..<30]"
    unfolding level_def by (simp only: zip_map_map zip_same_conv_map map_map o_def split_conv)
  then have "map (\<lambda>(p, q). dist3 p q) (zip (level y) (level y')) = map (\<lambda>i. \<bar>y - y'\<bar>) [0..<30]"
    by (simp add: dist3_level o_def)
  moreover have "length (level y) = 30" by (simp add: level_def)
  ultimately show ?thesis
    by (simp add: metric_def average_pointwise_euclidean_def sum_list_triv)
qed

lemma update_centroid_level [simp]:
  "update_centroid (level y) n (level y') = level ((real n * y + y') / real (Suc n))"
proof -
  have "zip (level y) (level y') = map (\<lambda>i. ((real i / 29, y, 0), (real i / 29, y', 0))) [0..<30]"
    unfolding level_def by (simp only: zip_map_map zip_same_conv_map map_map o_def split_conv)
  moreover have "scale_point (1 / real (Suc n)) (add_point (scale_point (real n) (a, y, 0)) (a, y', 0))
        = (a, (real n * y + y') / real (Suc n), 0)" for a
  proof -
    have "(real n * a + a) / real (Suc n) = a"
      by (simp add: field_simps)
    then show ?thesis by (simp add: scale_point_def add_point_def)
  qed
  ultimately show ?thesis
    by (simp add: update_centroid_def level_def o_def)
qed

lemma four_lines_at_9:
  "QuickBundles_cluster metric (Thr 9) four_lines
     = [\<lparr>indices = [0, 2], centroid = level (- 4)\<rparr>, \<lparr>indices = [1, 3], centroid = level 14\<rparr>]"
  by (simp add: QuickBundles_cluster_def four_lines_def assignment_step_def close_enough_def
      join_cluster_def)

lemma four_lines_at_11:
  "QuickBundles_cluster metric (Thr 11) four_lines
     = [\<lparr>indices = [0, 1], centroid = level 5\<rparr>, \<lparr>indices = [2], centroid = level (- 8)\<rparr>,
        \<lparr>indices = [3], centroid = level 18\<rparr>]"
  by (simp add: QuickBundles_cluster_def four_lines_def assignment_step_def close_enough_def
      join_cluster_def)

text \<open>
  Claim C4, as stated: a larger threshold never yields more clusters. It fails for the four
  level streamlines at heights 0, 10, -8 and 18. At threshold 9 the second streamline founds
  a cluster, and the third and fourth join the first and the second cluster: two clusters.
  At threshold 11 the second streamline joins the first, which moves the centroid to height
  5, out of reach of the third and of the fourth streamline: three clusters.
\<close>

theorem coarsening_counterexample:
  "thr_less (Thr 9) (Thr 11) \<and>
   map indices (QuickBundles_cluster metric (Thr 9) four_lines) = [[0, 2], [1, 3]] \<and>
   map indices (QuickBundles_cluster metric (Thr 11) four_lines) = [[0, 1], [2], [3]] \<and>
   \<not> length (QuickBundles_cluster metric (Thr 11) four_lines)
       \<le> length (QuickBundles_cluster metric (Thr 9) four_lines)"
  by (simp add: four_lines_at_9 four_lines_at_11 thr_less_def)

subsection \<open>What holds of the number of clusters\<close>

lemma close_enough_mono: "thr_less t1 t2 \<Longrightarrow> close_enough d t1 \<Longrightarrow> close_enough d t2"
  by (auto simp: thr_less_def close_enough_def split: threshold.splits)

lemma assignment_step_length:
  "length cs \<le> length (assignment_step m t cs ix)"
  by (simp add: assignment_step_def Let_def split: option.splits prod.splits)

lemma assignment_step_nonempty: "assignment_step m t cs ix \<noteq> []"
proof (cases cs)
  case Nil
  then show ?thesis by (simp add: assignment_step_def)
next
  case (Cons c cs')
  with assignment_step_length [of cs m t ix] show ?thesis by auto
qed

lemma foldl_assignment_length:
  "length cs \<le> length (foldl (assignment_step m t) cs l)"
proof (induction l arbitrary: cs)
  case Nil
  then show ?case by simp
next
  case (Cons ix l)
  have "length cs \<le> length (assignment_step m t cs ix)"
    by (simp add: assignment_step_length)
  also have "\<dots> \<le> length (foldl (assignment_step m t) (assignment_step m t cs ix) l)"
    by (rule Cons.IH)
  finally show ?case by simp
qed

lemma QuickBundles_cluster_nonempty:
  assumes "xs \<noteq> []"
  shows "QuickBundles_cluster m t xs \<noteq> []"
proof -
  from assms obtain x ys where xs: "xs = x # ys" by (cases xs) auto
  have "assignment_step m t [] (0, x) \<noteq> []" by (rule assignment_step_nonempty)
  moreover have "length (assignment_step m t [] (0, x))
      \<le> length (foldl (assignment_step m t) (assignment_step m t [] (0, x)) (enumerate 1 ys))"
    by (rule foldl_assignment_length)
  ultimately have "foldl (assignment_step m t) (assignment_step m t [] (0, x)) (enumerate 1 ys) \<noteq> []"
    by auto
  then show ?thesis by (simp add: xs QuickBundles_cluster_def)
qed

lemma coarsest_at_infinity:
  "length (QuickBundles_cluster m np_inf xs) \<le> length (QuickBundles_cluster m t xs)"
proof (cases "xs = []")
  case True
  then show ?thesis by simp
next
  case False
  from QuickBundles_cluster_inf [OF False, of m] obtain c where
    "QuickBundles_cluster m np_inf xs = [c]" by blast
  moreover from QuickBundles_cluster_nonempty [OF False, of m t]
  have "Suc 0 \<le> length (QuickBundles_cluster m t xs)"
    by (cases "QuickBundles_cluster m t xs") simp_all
  ultimately show ?thesis by simp
qed

lemma three_lines:
  assumes "thr_less t1 t2"
  shows "length (QuickBundles_cluster m t2 [a, b, c]) \<le> length (QuickBundles_cluster m t1 [a, b, c])"
proof -
  note mono = close_enough_mono [OF assms]
  show ?thesis
    using mono
    by (auto simp: QuickBundles_cluster_def assignment_step_def Let_def split: if_splits)
qed

lemma two_lines:
  assumes "thr_less t1 t2"
  shows "length (QuickBundles_cluster m t2 [a, b]) \<le> length (QuickBundles_cluster m t1 [a, b])"
  using close_enough_mono [OF assms]
  by (auto simp: QuickBundles_cluster_def assignment_step_def Let_def split: if_splits)

lemma one_line:
  "length (QuickBundles_cluster m t2 [a]) \<le> length (QuickBundles_cluster m t1 [a])"
  by (simp add: QuickBundles_cluster_def assignment_step_def)

text \<open>
  Claim C4, amended. For every metric and every pair of thresholds \<open>t1 < t2\<close>, clustering at
  \<open>t2\<close> yields at most as many clusters as clustering at \<open>t1\<close> when \<open>t2\<close> is infinity, and when the
  collection has at most three streamlines.
\<close>

theorem coarsening_where_it_holds:
  assumes "thr_less t1 t2" "t2 = np_inf \<or> length xs \<le> 3"
  shows "length (QuickBundles_cluster m t2 xs) \<le> length (QuickBundles_cluster m t1 xs)"
proof (cases "t2 = np_inf")
  case True
  then show ?thesis by (simp add: coarsest_at_infinity)
next
  case False
  with assms(2) have "length xs \<le> 3" by simp
  then consider "xs = []" | a where "xs = [a]" | a b where "xs = [a, b]"
    | a b c where "xs = [a, b, c]"
    by (cases xs rule: list.exhaust [case_names Nil Cons])
       (auto simp: length_Suc_conv le_Suc_eq numeral_3_eq_3)
  then show ?thesis
  proof cases
    case 1
    then show ?thesis by simp
  next
    case 2
    then show ?thesis by (simp add: one_line)
  next
    case 3
    then show ?thesis by (simp add: two_lines [OF assms(1)])
  next
    case 4
    then show ?thesis by (simp add: three_lines [OF assms(1)])
  qed
qed

theorem coarsening_where_it_holds_witness:
  "thr_less (Thr 9) np_inf \<and>
   length (QuickBundles_cluster metric np_inf four_lines)
     \<le> length (QuickBundles_cluster metric (Thr 9) four_lines) \<and>
   thr_less (Thr 9) (Thr 11) \<and> length [line_y 0, line_y 10, line_y (- 8)] \<le> 3 \<and>
   length (QuickBundles_cluster metric (Thr 11) [line_y 0, line_y 10, line_y (- 8)])
     \<le> length (QuickBundles_cluster metric (Thr 9) [line_y 0, line_y 10, line_y (- 8)])"
proof -
  have a: "thr_less (Thr 9) np_inf" "thr_less (Thr 9) (Thr 11)"
    by (simp_all add: thr_less_def)
  have b: "length [line_y 0, line_y 10, line_y (- 8)] \<le> 3" by simp
  from coarsening_where_it_holds [OF a(1), of four_lines metric]
    coarsening_where_it_holds [OF a(2), of "[line_y 0, line_y 10, line_y (- 8)]" metric] a b
  show ?thesis by simp
qed

theorem preview_inf_one_cluster_witness:
  "qb_cluster example_env = QuickBundles_cluster metric \<and>
   built example_env four_bundle \<and> ren four_bundle \<and>
   length (streamlines four_bundle) = 4 \<and>
   (\<exists>b' c. preview example_env np_inf four_bundle = Inr (b', 1) \<and>
      clusters b' = Some [c] \<and> indices c = [0, 1, 2, 3]) \<and>
   map_sum id snd (preview example_env (Thr 9) four_bundle) = Inr 2 \<and>
   built example_env (constructed example_env four_lines None (Some np_inf) None) \<and>
   \<not> ren (constructed example_env four_lines None (Some np_inf) None) \<and>
   preview example_env np_inf (constructed example_env four_lines None (Some np_inf) None)
     = Inl AttributeError"
proof -
  let ?b0 = "constructed example_env four_lines None (Some np_inf) None"
  have q: "qb_cluster example_env = QuickBundles_cluster metric"
    by (simp add: example_env_def)
  have b0: "built example_env ?b0"
    by (rule built.by_init [of example_env four_lines None "Some np_inf" None])
       (simp add: four_lines_def)
  then have b: "built example_env four_bundle"
    unfolding four_bundle_def by (rule built.by_add_to_renderer)
  have r: "ren four_bundle" "\<not> ren ?b0"
    by (simp_all add: four_bundle_def add_to_renderer_def)
  have l: "streamlines four_bundle = four_lines" "length four_lines = 4"
    by (simp_all add: four_bundle_def add_to_renderer_def four_lines_def)
  have u: "[0..<4] = [0, 1, 2, 3]"
    by (simp add: upt_rec)
  have n: "map_sum id snd (preview example_env (Thr 9) four_bundle) = Inr 2"
    by (simp add: preview_attached [OF r(1)] l q four_lines_at_9)
  from preview_inf_one_cluster [OF q b] preview_inf_one_cluster [OF q b0] q b b0 r l u n
  show ?thesis by auto
qed

end
